theory Spec2Isabelle
  imports Complex_Main
begin

section \<open>Bus activity timer: the session log of \<open>src/app/page.tsx\<close>\<close>

text \<open>
  The component \<open>Home\<close> keeps a log of timed activity intervals. This theory embeds its
  state and its pure computations:
  \<^item> \<open>handleActivityClick\<close>, the transition run when an activity button is pressed;
  \<^item> \<open>calculateDurations\<close>, the percentage share of each activity;
  \<^item> \<open>formatDuration\<close> and \<open>exportToCSV\<close>, the text of the exported table.

  Timestamps are the integers returned by \<open>Date.now()\<close> (milliseconds since the epoch).
  Every reading of \<open>Date.now()\<close> is an argument of the function that takes it.
\<close>

subsection \<open>Data\<close>

text \<open>
  \<^verbatim>\<open>type Activity = 'moving' | 'traffic' | 'dwelling' | null;\<close>
  The three string literals are the constructors of \<open>ActivityName\<close>; \<open>null\<close> is \<open>None\<close>.
  A value of this type is truthy exactly when it is not \<open>null\<close>.
\<close>

datatype ActivityName = Moving | Traffic | Dwelling

type_synonym Activity = "ActivityName option"

text \<open>
  \<^verbatim>\<open>type TimeEntry = { activity: Activity; startTime: number; endTime: number | null };\<close>
\<close>

record TimeEntry =
  activity :: Activity
  startTime :: int
  endTime :: "int option"

text \<open>
  The \<open>useState\<close> cells of \<open>Home\<close> that the transition reads and writes. The cell
  \<open>startTime\<close> of the component is named \<open>startTime_st\<close> here, since the entry field has
  the same name.
\<close>

record state =
  currentActivity :: Activity
  timeEntries :: "TimeEntry list"
  startTime_st :: "int option"

definition initial :: state where
  "initial = \<lparr>currentActivity = None, timeEntries = [], startTime_st = None\<rparr>"

subsection \<open>The transition\<close>

text \<open>
  \<^verbatim>\<open>
  const handleActivityClick = (activity: Activity) => {
    const now = Date.now();
    if (currentActivity) {
      setTimeEntries(prev => prev.map(entry =>
        entry.endTime === null ? { ...entry, endTime: now } : entry));
    }
    if (activity !== currentActivity) {
      setTimeEntries(prev => [...prev, { activity, startTime: now, endTime: null }]);
      setCurrentActivity(activity);
      if (startTime === null) setStartTime(now);
    } else {
      setCurrentActivity(null);
    }
  };
  \<close>
  The two updaters of \<open>timeEntries\<close> are applied in the order they are queued.
\<close>

definition closeEntry :: "int \<Rightarrow> TimeEntry \<Rightarrow> TimeEntry" where
  "closeEntry now entry = (if endTime entry = None then entry\<lparr>endTime := Some now\<rparr> else entry)"

definition handleActivityClick :: "Activity \<Rightarrow> int \<Rightarrow> state \<Rightarrow> state" where
  "handleActivityClick act now s =
     (let prev = (if currentActivity s \<noteq> None
                  then map (closeEntry now) (timeEntries s)
                  else timeEntries s)
      in if act \<noteq> currentActivity s
         then s\<lparr>timeEntries := prev @ [\<lparr>activity = act, startTime = now, endTime = None\<rparr>],
                currentActivity := act,
                startTime_st := (if startTime_st s = None then Some now else startTime_st s)\<rparr>
         else s\<lparr>timeEntries := prev, currentActivity := None\<rparr>)"

text \<open>
  The three buttons call \<open>handleActivityClick('moving')\<close>, \<open>handleActivityClick('traffic')\<close>
  and \<open>handleActivityClick('dwelling')\<close>: the command \<open>selectActivity\<close> of the interface.
\<close>

definition selectActivity :: "ActivityName \<Rightarrow> int \<Rightarrow> state \<Rightarrow> state" where
  "selectActivity a now s = handleActivityClick (Some a) now s"

text \<open>
  \<open>handleActivityClick\<close> is created anew by every render of the component, and it reads
  \<open>currentActivity\<close> and \<open>startTime\<close> from the render that created it; only the updaters
  of \<open>timeEntries\<close> are given the pending log. \<open>handleActivityClick act now s\<close> above is a
  call made by the handler of the render that shows \<open>s\<close>, with no other call pending.
  \<open>handleInRender r act now s\<close> is a call made by the handler of the render that shows
  \<open>r\<close> when the updates of earlier calls of the same render have led to the pending state
  \<open>s\<close>: the two tests read \<open>currentActivity r\<close> and \<open>startTime_st r\<close>, the updaters of the
  log work on \<open>timeEntries s\<close>, and the values set for \<open>currentActivity\<close> and \<open>startTime\<close>
  replace the pending ones.
\<close>

definition handleInRender :: "state \<Rightarrow> Activity \<Rightarrow> int \<Rightarrow> state \<Rightarrow> state" where
  "handleInRender r act now s =
     (let prev = (if currentActivity r \<noteq> None
                  then map (closeEntry now) (timeEntries s)
                  else timeEntries s)
      in if act \<noteq> currentActivity r
         then s\<lparr>timeEntries := prev @ [\<lparr>activity = act, startTime = now, endTime = None\<rparr>],
                currentActivity := act,
                startTime_st := (if startTime_st r = None then Some now else startTime_st s)\<rparr>
         else s\<lparr>timeEntries := prev, currentActivity := None\<rparr>)"

text \<open>
  The button presses handled between two renders, in order, and the state the next render
  commits; then a whole session as the list of these batches. A click that React commits
  before the next click is handled is a batch of one call.
\<close>

fun batch :: "state \<Rightarrow> state \<Rightarrow> (ActivityName \<times> int) list \<Rightarrow> state" where
  "batch r s [] = s"
| "batch r s ((a, now) # calls) = batch r (handleInRender r (Some a) now s) calls"

definition commit :: "state \<Rightarrow> (ActivityName \<times> int) list \<Rightarrow> state" where
  "commit s calls = batch s s calls"

fun renders :: "state \<Rightarrow> (ActivityName \<times> int) list list \<Rightarrow> state" where
  "renders s [] = s"
| "renders s (calls # rest) = renders (commit s calls) rest"

definition schedule :: "(ActivityName \<times> int) list list \<Rightarrow> state" where
  "schedule batches = renders initial batches"

text \<open>
  The sessions in which React renders between any two calls, as it does between two clicks
  of a user: every batch holds one call. \<open>run s calls\<close> continues from the committed state
  \<open>s\<close>, and \<open>session calls\<close> starts from the initial state. Sessions with several calls in
  one render are instances of \<open>schedule\<close> only.
\<close>

definition run :: "state \<Rightarrow> (ActivityName \<times> int) list \<Rightarrow> state" where
  "run s calls = renders s (map (\<lambda>c. [c]) calls)"

definition session :: "(ActivityName \<times> int) list \<Rightarrow> state" where
  "session calls = schedule (map (\<lambda>c. [c]) calls)"

subsection \<open>Open entries and the consistency of the cached activity\<close>

definition isOpen :: "TimeEntry \<Rightarrow> bool" where
  "isOpen entry = (endTime entry = None)"

definition openEntries :: "TimeEntry list \<Rightarrow> TimeEntry list" where
  "openEntries es = filter isOpen es"

text \<open>
  The tail of the log agrees with the cached activity: idle with every entry closed, or
  active with the last entry open for that activity and every earlier entry closed.
\<close>

definition consistent :: "state \<Rightarrow> bool" where
  "consistent s =
     (case currentActivity s of
        None \<Rightarrow> openEntries (timeEntries s) = []
      | Some a \<Rightarrow> timeEntries s \<noteq> []
                 \<and> openEntries (butlast (timeEntries s)) = []
                 \<and> isOpen (last (timeEntries s))
                 \<and> activity (last (timeEntries s)) = Some a)"

text \<open>
  The part of \<open>consistent\<close> that speaks of the cached activity and the last entry only.
\<close>

definition agrees :: "state \<Rightarrow> bool" where
  "agrees s =
     (case currentActivity s of
        None \<Rightarrow> openEntries (timeEntries s) = []
      | Some a \<Rightarrow> timeEntries s \<noteq> [] \<and> isOpen (last (timeEntries s))
                 \<and> activity (last (timeEntries s)) = Some a)"

text \<open>
  Every activity an entry of the log may carry according to the interface: one of the
  three names, not \<open>null\<close>.
\<close>

definition validActivity :: "Activity \<Rightarrow> bool" where
  "validActivity act = (act = Some Moving \<or> act = Some Traffic \<or> act = Some Dwelling)"

subsection \<open>The state machine as the specification words it\<close>

text \<open>
  The specification describes the transition on the pair of the current activity and the
  log, in three cases: from Idle, append a new open entry; from \<open>Active a\<close> on the same
  activity, close the open entry; from \<open>Active a\<close> on another activity, close the open
  entry and append a new open one with the same timestamp. \<open>select_spec\<close> follows these
  words (the open entry is the last entry of the log); \<open>handleActivityClick\<close> above
  follows the source.
\<close>

definition newEntry :: "ActivityName \<Rightarrow> int \<Rightarrow> TimeEntry" where
  "newEntry a now = \<lparr>activity = Some a, startTime = now, endTime = None\<rparr>"

definition closeOpenEntry :: "int \<Rightarrow> TimeEntry list \<Rightarrow> TimeEntry list" where
  "closeOpenEntry now es =
     (if es = [] then [] else butlast es @ [(last es)\<lparr>endTime := Some now\<rparr>])"

definition select_spec ::
  "ActivityName \<Rightarrow> int \<Rightarrow> Activity \<times> TimeEntry list \<Rightarrow> Activity \<times> TimeEntry list" where
  "select_spec a now m =
     (case m of
        (None, es) \<Rightarrow> (Some a, es @ [newEntry a now])
      | (Some c, es) \<Rightarrow>
          if c = a then (None, closeOpenEntry now es)
          else (Some a, closeOpenEntry now es @ [newEntry a now]))"

definition machine :: "state \<Rightarrow> Activity \<times> TimeEntry list" where
  "machine s = (currentActivity s, timeEntries s)"

subsection \<open>Chronological order\<close>

text \<open>
  \<open>follows e1 e2\<close>: the entry \<open>e2\<close> starts no earlier than \<open>e1\<close> starts and, when \<open>e1\<close> is
  closed, no earlier than \<open>e1\<close> ends. \<open>upto t es\<close>: no timestamp of \<open>es\<close> is later than \<open>t\<close>.
\<close>

definition follows :: "TimeEntry \<Rightarrow> TimeEntry \<Rightarrow> bool" where
  "follows e1 e2 =
     (startTime e1 \<le> startTime e2
      \<and> (case endTime e1 of None \<Rightarrow> True | Some t \<Rightarrow> t \<le> startTime e2))"

definition upto :: "int \<Rightarrow> TimeEntry list \<Rightarrow> bool" where
  "upto t es =
     list_all (\<lambda>e. startTime e \<le> t \<and> (case endTime e of None \<Rightarrow> True | Some u \<Rightarrow> u \<le> t)) es"

section \<open>JavaScript numbers and strings\<close>

subsection \<open>Binary64 arithmetic\<close>

text \<open>
  A JavaScript \<open>number\<close> is an IEEE 754 binary64 value. A finite one is the rational it
  denotes; \<open>fl x\<close> is the binary64 value nearest to the rational \<open>x\<close>, a tie going to the
  even significand (53 bits). The exponent range is not bounded here: the quotients, sums
  and products below stay far inside the range of normal binary64 values.
  \<open>exponent x\<close> is the integer \<open>e\<close> with \<open>2^e \<le> x < 2^(e + 1)\<close>, for \<open>x > 0\<close>.
\<close>

fun bitLength :: "nat \<Rightarrow> nat" where
  "bitLength n = (if n = 0 then 0 else Suc (bitLength (n div 2)))"

definition pow2 :: "int \<Rightarrow> rat" where
  "pow2 e = (if 0 \<le> e then 2 ^ nat e else 1 / 2 ^ nat (- e))"

definition exponent :: "rat \<Rightarrow> int" where
  "exponent x =
     (if 1 \<le> x then int (bitLength (nat \<lfloor>x\<rfloor>)) - 1
      else - int (bitLength (nat (\<lceil>1 / x\<rceil> - 1))))"

definition roundHalfEven :: "rat \<Rightarrow> int" where
  "roundHalfEven m =
     (let f = \<lfloor>m\<rfloor>; d = m - of_int f
      in if d < 1 / 2 then f else if 1 / 2 < d then f + 1 else if even f then f else f + 1)"

definition fl :: "rat \<Rightarrow> rat" where
  "fl x =
     (if x = 0 then 0
      else let u = pow2 (exponent \<bar>x\<bar> - 52)
           in sgn x * of_int (roundHalfEven (\<bar>x\<bar> / u)) * u)"

text \<open>
  Timestamps and the durations computed from them are integers. \<open>x - y\<close> and \<open>x + y\<close> on
  integer-valued numbers give the binary64 value nearest to the exact result, which is
  again an integer (the exact result itself up to \<open>2^53\<close> in magnitude).
\<close>

definition doubleOf :: "int \<Rightarrow> int" where
  "doubleOf x = \<lfloor>fl (of_int x)\<rfloor>"

definition jsSub :: "int \<Rightarrow> int \<Rightarrow> int" where
  "jsSub x y = doubleOf (x - y)"

definition jsAdd :: "int \<Rightarrow> int \<Rightarrow> int" where
  "jsAdd x y = doubleOf (x + y)"

text \<open>
  \<open>x % y\<close> on integers, for \<open>y \<noteq> 0\<close>: the remainder has the sign of the dividend. It is
  exact.
\<close>

definition jsRem :: "int \<Rightarrow> int \<Rightarrow> int" where
  "jsRem x y = sgn x * (\<bar>x\<bar> mod \<bar>y\<bar>)"

text \<open>
  The result of a division, which may fail to be finite: \<open>0 / 0\<close> is \<open>NaN\<close> and a nonzero
  number divided by zero is an infinity. \<open>NaN\<close> and the infinities are preserved by a
  multiplication with \<open>100\<close>.
\<close>

datatype number = Finite rat | NaN | PosInfinity | NegInfinity

definition jsDiv :: "int \<Rightarrow> int \<Rightarrow> number" where
  "jsDiv x y =
     (if y = 0 then (if x = 0 then NaN else if 0 < x then PosInfinity else NegInfinity)
      else Finite (fl (of_int x / of_int y)))"

definition jsMul100 :: "number \<Rightarrow> number" where
  "jsMul100 v = (case v of Finite x \<Rightarrow> Finite (fl (x * 100)) | _ \<Rightarrow> v)"

subsection \<open>Strings\<close>

text \<open>\<open>Number.prototype.toString\<close> on an integer below \<open>10^21\<close> in magnitude.\<close>

definition digitChar :: "nat \<Rightarrow> char" where
  "digitChar d = ''0123456789'' ! d"

fun natString :: "nat \<Rightarrow> string" where
  "natString n = (if n < 10 then [digitChar n] else natString (n div 10) @ [digitChar (n mod 10)])"

definition numberToString :: "int \<Rightarrow> string" where
  "numberToString i = (if i < 0 then CHR ''-'' # natString (nat (- i)) else natString (nat i))"

text \<open>\<open>String.prototype.padStart(targetLength, padString)\<close> with a pad string of one character.\<close>

definition padStart :: "nat \<Rightarrow> char \<Rightarrow> string \<Rightarrow> string" where
  "padStart targetLength c s = replicate (targetLength - length s) c @ s"

text \<open>\<open>Array.prototype.join(separator)\<close> on an array of strings.\<close>

fun joinWith :: "string \<Rightarrow> string list \<Rightarrow> string" where
  "joinWith sep [] = []"
| "joinWith sep [x] = x"
| "joinWith sep (x # y # zs) = x @ sep @ joinWith sep (y # zs)"

text \<open>
  \<open>Number.prototype.toFixed(1)\<close>. A value that is not finite prints as its name. For a finite
  \<open>x\<close> the sign is taken off, \<open>n\<close> is the integer for which \<open>n / 10 - x\<close> is closest to zero
  (the larger one of two), and the digits of \<open>n\<close>, padded to two, are printed with a point
  before the last. From \<open>10^21\<close> on \<open>toFixed\<close> prints in exponent notation, which is not
  modelled: the result is \<open>None\<close> there.
\<close>

definition tenthsString :: "nat \<Rightarrow> string" where
  "tenthsString n =
     (let m = natString n;
          m = (if length m \<le> 1 then replicate (2 - length m) CHR ''0'' @ m else m)
      in take (length m - 1) m @ ''.'' @ drop (length m - 1) m)"

definition toFixed1 :: "number \<Rightarrow> string option" where
  "toFixed1 v =
     (case v of
        NaN \<Rightarrow> Some ''NaN''
      | PosInfinity \<Rightarrow> Some ''Infinity''
      | NegInfinity \<Rightarrow> Some ''-Infinity''
      | Finite x \<Rightarrow>
          if 10 ^ 21 \<le> \<bar>x\<bar> then None
          else Some ((if x < 0 then ''-'' else [])
                     @ tenthsString (nat \<lfloor>\<bar>x\<bar> * 10 + 1 / 2\<rfloor>)))"

section \<open>Reading the log\<close>

subsection \<open>The end of an entry at read time\<close>

text \<open>
  Both readers compute \<^verbatim>\<open>entry.endTime || Date.now()\<close>: the stored end time unless it is
  falsy, that is \<open>null\<close> or \<open>0\<close>; otherwise the reading \<open>now\<close> of the clock.
\<close>

definition effectiveEnd :: "int \<Rightarrow> TimeEntry \<Rightarrow> int" where
  "effectiveEnd now entry =
     (case endTime entry of None \<Rightarrow> now | Some t \<Rightarrow> if t = 0 then now else t)"

subsection \<open>calculateDurations\<close>

text \<open>
  \<^verbatim>\<open>
  const calculateDurations = () => {
    const durations = { moving: 0, traffic: 0, dwelling: 0 };
    timeEntries.forEach(entry => {
      const end = entry.endTime || Date.now();
      const duration = end - entry.startTime;
      if (entry.activity) {
        durations[entry.activity] += duration;
      }
    });
    const total = durations.moving + durations.traffic + durations.dwelling;
    return {
      moving: (durations.moving / total * 100).toFixed(1),
      traffic: (durations.traffic / total * 100).toFixed(1),
      dwelling: (durations.dwelling / total * 100).toFixed(1)
    };
  };
  \<close>
  \<open>Date.now()\<close> is read anew for each entry: \<open>clock i\<close> is the reading taken at the entry of
  index \<open>i\<close>. The object \<open>durations\<close> is a function of the activity name.
\<close>

fun sumDurations ::
  "(nat \<Rightarrow> int) \<Rightarrow> nat \<Rightarrow> TimeEntry list \<Rightarrow> (ActivityName \<Rightarrow> int) \<Rightarrow> ActivityName \<Rightarrow> int" where
  "sumDurations clock i [] durations = durations"
| "sumDurations clock i (entry # entries) durations =
     (let end = effectiveEnd (clock i) entry;
          duration = jsSub end (startTime entry)
      in sumDurations clock (Suc i) entries
           (case activity entry of
              None \<Rightarrow> durations
            | Some a \<Rightarrow> durations(a := jsAdd (durations a) duration)))"

record shares =
  moving :: "string option"
  traffic :: "string option"
  dwelling :: "string option"

definition totalDuration :: "(nat \<Rightarrow> int) \<Rightarrow> TimeEntry list \<Rightarrow> int" where
  "totalDuration clock entries =
     (let durations = sumDurations clock 0 entries (\<lambda>a. 0)
      in jsAdd (jsAdd (durations Moving) (durations Traffic)) (durations Dwelling))"

definition calculateDurations :: "(nat \<Rightarrow> int) \<Rightarrow> TimeEntry list \<Rightarrow> shares" where
  "calculateDurations clock entries =
     (let durations = sumDurations clock 0 entries (\<lambda>a. 0);
          total = jsAdd (jsAdd (durations Moving) (durations Traffic)) (durations Dwelling)
      in \<lparr>moving = toFixed1 (jsMul100 (jsDiv (durations Moving) total)),
          traffic = toFixed1 (jsMul100 (jsDiv (durations Traffic) total)),
          dwelling = toFixed1 (jsMul100 (jsDiv (durations Dwelling) total))\<rparr>)"

text \<open>
  The component shows the shares only under \<^verbatim>\<open>{timeEntries.length > 0 && ( ... )}\<close>.
\<close>

definition timeSplit :: "(nat \<Rightarrow> int) \<Rightarrow> TimeEntry list \<Rightarrow> shares option" where
  "timeSplit clock entries =
     (if length entries > 0 then Some (calculateDurations clock entries) else None)"

subsection \<open>formatDuration and exportToCSV\<close>

text \<open>
  \<^verbatim>\<open>
  const formatDuration = (startTime: number, endTime: number): string => {
    const duration = endTime - startTime;
    const minutes = Math.floor(duration / 60000);
    const seconds = Math.floor((duration % 60000) / 1000);
    const milliseconds = duration % 1000;
    return `${minutes}:${seconds.toString().padStart(2, '0')}.${milliseconds.toString().padStart(3, '0')}`;
  };
  \<close>
\<close>

definition formatDuration :: "int \<Rightarrow> int \<Rightarrow> string" where
  "formatDuration start end =
     (let duration = jsSub end start;
          minutes = \<lfloor>fl (of_int duration / 60000)\<rfloor>;
          seconds = \<lfloor>fl (of_int (jsRem duration 60000) / 1000)\<rfloor>;
          milliseconds = jsRem duration 1000
      in numberToString minutes @ '':''
         @ padStart 2 CHR ''0'' (numberToString seconds) @ ''.''
         @ padStart 3 CHR ''0'' (numberToString milliseconds))"

text \<open>
  \<open>formatTimeForCSV\<close> returns what \<open>toLocaleTimeString('en-US', ...)\<close> of the platform gives
  for the timestamp, which depends on the time zone of the host. The platform function
  is the parameter \<open>tls\<close>.
\<close>

definition formatTimeForCSV :: "(int \<Rightarrow> string) \<Rightarrow> int \<Rightarrow> string" where
  "formatTimeForCSV tls timestamp = tls timestamp"

text \<open>The text a template literal inserts for a value of type \<open>Activity\<close>.\<close>

definition activityString :: "Activity \<Rightarrow> string" where
  "activityString act =
     (case act of
        Some Moving \<Rightarrow> ''moving''
      | Some Traffic \<Rightarrow> ''traffic''
      | Some Dwelling \<Rightarrow> ''dwelling''
      | None \<Rightarrow> ''null'')"

text \<open>
  \<^verbatim>\<open>
  const headers = ['activity_type', 'start_time', 'end_time', 'duration'];
  const rows = timeEntries.map(entry => {
    const endTime = entry.endTime || Date.now();
    const duration = formatDuration(entry.startTime, endTime);
    return `${entry.activity},${formatTimeForCSV(entry.startTime)},${formatTimeForCSV(endTime)},${duration}`;
  });
  const csv = [headers.join(','), ...rows].join('\n');
  \<close>
  \<open>exportToCSV\<close> is the text \<open>csv\<close> that the function hands to the share sheet or the
  download. As in \<open>calculateDurations\<close>, \<open>clock i\<close> is the reading of \<open>Date.now()\<close> at the
  entry of index \<open>i\<close>.
\<close>

definition headers :: "string list" where
  "headers = [''activity_type'', ''start_time'', ''end_time'', ''duration'']"

definition csvRow :: "(int \<Rightarrow> string) \<Rightarrow> int \<Rightarrow> TimeEntry \<Rightarrow> string" where
  "csvRow tls now entry =
     (let end = effectiveEnd now entry;
          duration = formatDuration (startTime entry) end
      in activityString (activity entry) @ '','' @ formatTimeForCSV tls (startTime entry)
         @ '','' @ formatTimeForCSV tls end @ '','' @ duration)"

definition exportToCSV :: "(int \<Rightarrow> string) \<Rightarrow> (nat \<Rightarrow> int) \<Rightarrow> TimeEntry list \<Rightarrow> string" where
  "exportToCSV tls clock entries =
     (let rows = map (\<lambda>(i, entry). csvRow tls (clock i) entry) (enumerate 0 entries)
      in joinWith [CHR 0x0A] (joinWith '','' headers # rows))"

text \<open>An entry with its end time \<open>0\<close> replaced by \<open>null\<close>.\<close>

definition zeroAsOpen :: "TimeEntry \<Rightarrow> TimeEntry" where
  "zeroAsOpen entry = (if endTime entry = Some 0 then entry\<lparr>endTime := None\<rparr> else entry)"

subsection \<open>The duration text as the specification words it\<close>

text \<open>
  \<open>minutes:seconds.milliseconds\<close> of a duration \<open>d \<ge> 0\<close> in milliseconds: the minutes in
  decimal, unpadded; the seconds in two digits; the milliseconds in three digits.
\<close>

definition twoDigits :: "nat \<Rightarrow> string" where
  "twoDigits n = [digitChar (n div 10), digitChar (n mod 10)]"

definition threeDigits :: "nat \<Rightarrow> string" where
  "threeDigits n = [digitChar (n div 100), digitChar (n div 10 mod 10), digitChar (n mod 10)]"

definition durationText :: "int \<Rightarrow> string" where
  "durationText d =
     natString (nat (d div 60000)) @ '':'' @ twoDigits (nat (d div 1000 mod 60))
     @ ''.'' @ threeDigits (nat (d mod 1000))"

subsection \<open>Reading the exported text back\<close>

text \<open>
  The parser of the round trip: the text is split into rows at the newlines, the header
  row is skipped, each row is split into its fields at the commas, and the duration field
  \<open>minutes:seconds.milliseconds\<close> is read as decimal numbers and converted to milliseconds.
  A row yields its activity label and its duration.
\<close>

fun splitOn :: "char \<Rightarrow> string \<Rightarrow> string list" where
  "splitOn c [] = [[]]"
| "splitOn c (x # xs) =
     (if x = c then [] # splitOn c xs
      else (case splitOn c xs of [] \<Rightarrow> [[x]] | w # ws \<Rightarrow> (x # w) # ws))"

definition digitValue :: "char \<Rightarrow> nat option" where
  "digitValue c =
     (let n = of_char c :: nat in if 48 \<le> n \<and> n \<le> 57 then Some (n - 48) else None)"

fun parseDigits :: "nat \<Rightarrow> string \<Rightarrow> nat option" where
  "parseDigits acc [] = Some acc"
| "parseDigits acc (c # cs) =
     (case digitValue c of None \<Rightarrow> None | Some d \<Rightarrow> parseDigits (acc * 10 + d) cs)"

definition parseNat :: "string \<Rightarrow> nat option" where
  "parseNat s = (if s = [] then None else parseDigits 0 s)"

definition parseDuration :: "string \<Rightarrow> int option" where
  "parseDuration s =
     (case splitOn CHR '':'' s of
        [m, rest] \<Rightarrow>
          (case splitOn CHR ''.'' rest of
             [sec, ms] \<Rightarrow>
               (case parseNat m of
                  None \<Rightarrow> None
                | Some a \<Rightarrow>
                    (case parseNat sec of
                       None \<Rightarrow> None
                     | Some b \<Rightarrow>
                         (case parseNat ms of
                            None \<Rightarrow> None
                          | Some c \<Rightarrow> Some (int a * 60000 + int b * 1000 + int c))))
           | _ \<Rightarrow> None)
      | _ \<Rightarrow> None)"

definition parseRow :: "string \<Rightarrow> (string \<times> int) option" where
  "parseRow row =
     (case splitOn CHR '','' row of
        [label, start, end, duration] \<Rightarrow>
          (case parseDuration duration of None \<Rightarrow> None | Some d \<Rightarrow> Some (label, d))
      | _ \<Rightarrow> None)"

definition parseCSV :: "string \<Rightarrow> (string \<times> int) list option" where
  "parseCSV text =
     (case splitOn (CHR 0x0A) text of
        [] \<Rightarrow> None
      | header # rows \<Rightarrow> those (map parseRow rows))"

text \<open>
  What the round trip needs of the platform's time format: it contains neither a comma
  nor a newline.
\<close>

definition plainTime :: "(int \<Rightarrow> string) \<Rightarrow> int \<Rightarrow> bool" where
  "plainTime tls t = (CHR '','' \<notin> set (tls t) \<and> CHR 0x0A \<notin> set (tls t))"

text \<open>
  An instance of the platform function: the time of day of a host in the UTC time zone, in
  the form \<open>h:mm:ss AM\<close> or \<open>h:mm:ss PM\<close>.
\<close>

definition utcTime :: "int \<Rightarrow> string" where
  "utcTime timestamp =
     (let secs = nat (timestamp div 1000 mod 86400);
          h = secs div 3600;
          h12 = (if h mod 12 = 0 then 12 else h mod 12)
      in natString h12 @ '':'' @ twoDigits (secs div 60 mod 60) @ '':'' @ twoDigits (secs mod 60)
         @ (if h < 12 then '' AM'' else '' PM''))"

text \<open>
  The duration of an entry at read time, as an exact difference of timestamps, and the
  header row as one text.
\<close>

definition effectiveDuration :: "int \<Rightarrow> TimeEntry \<Rightarrow> int" where
  "effectiveDuration now entry = effectiveEnd now entry - startTime entry"

definition headerRow :: string where
  "headerRow = ''activity_type,start_time,end_time,duration''"

subsection \<open>Reading a share as a number\<close>

text \<open>
  The text \<open>toFixed(1)\<close> gives for a finite share is a sign and a number of tenths:
  \<open>shareString\<close> is the text, \<open>shareTenths\<close> the signed number of tenths it denotes.
  \<open>exactSum\<close> is the sum of the effective durations of the entries of one activity and
  \<open>absSum\<close> the sum of the magnitudes of all effective durations, both as integers.
\<close>

definition shareString :: "bool \<Rightarrow> nat \<Rightarrow> string" where
  "shareString negative n = (if negative then ''-'' else []) @ tenthsString n"

definition shareTenths :: "bool \<Rightarrow> nat \<Rightarrow> int" where
  "shareTenths negative n = (if negative then - int n else int n)"

definition exactSum :: "(nat \<Rightarrow> int) \<Rightarrow> nat \<Rightarrow> TimeEntry list \<Rightarrow> ActivityName \<Rightarrow> int" where
  "exactSum clock n es a =
     sum_list (map (\<lambda>(i, e). if activity e = Some a then effectiveDuration (clock i) e else 0)
                (enumerate n es))"

definition absSum :: "(nat \<Rightarrow> int) \<Rightarrow> nat \<Rightarrow> TimeEntry list \<Rightarrow> int" where
  "absSum clock n es =
     sum_list (map (\<lambda>(i, e). \<bar>effectiveDuration (clock i) e\<bar>) (enumerate n es))"


section \<open>Properties of the transition\<close>

subsection \<open>One call in each render\<close>

text \<open>
  A call with no other call pending in its render is \<open>handleActivityClick\<close> on the committed
  state, so a session with one call in each render applies \<open>selectActivity\<close> call by call.
\<close>

lemma handleInRender_same: "handleInRender s act now s = handleActivityClick act now s"
  by (simp add: handleInRender_def handleActivityClick_def)

lemma commit_single: "commit s [(a, now)] = selectActivity a now s"
  by (simp add: commit_def handleInRender_same selectActivity_def)

lemma run_Nil [simp]: "run s [] = s"
  by (simp add: run_def)

lemma run_Cons [simp]: "run s ((a, now) # calls) = run (selectActivity a now s) calls"
  by (simp add: run_def commit_single)

lemma session_run: "session calls = run initial calls"
  by (simp add: session_def schedule_def run_def)

subsection \<open>Consistency is invariant\<close>

lemma openEntries_append [simp]:
  "openEntries (xs @ ys) = openEntries xs @ openEntries ys"
  by (simp add: openEntries_def)

lemma openEntries_closed [simp]: "openEntries (map (closeEntry now) es) = []"
  by (induction es) (simp_all add: openEntries_def closeEntry_def isOpen_def)

lemma closeEntry_closed: "\<not> isOpen e \<Longrightarrow> closeEntry now e = e"
  by (simp add: closeEntry_def isOpen_def)

lemma map_closeEntry_closed: "openEntries es = [] \<Longrightarrow> map (closeEntry now) es = es"
  by (induction es) (auto simp: openEntries_def closeEntry_closed split: if_splits)

lemma consistent_initial: "consistent initial"
  by (simp add: consistent_def initial_def openEntries_def)

lemma consistent_selectActivity: "consistent s \<Longrightarrow> consistent (selectActivity a now s)"
  by (cases "currentActivity s")
    (auto simp: consistent_def selectActivity_def handleActivityClick_def Let_def
      isOpen_def butlast_append)

lemma consistent_run: "consistent s \<Longrightarrow> consistent (run s calls)"
  by (induction calls arbitrary: s) (auto simp: consistent_selectActivity)

lemma consistent_session: "consistent (session calls)"
  by (simp add: session_run consistent_run consistent_initial)

lemma consistent_open_le1: "consistent s \<Longrightarrow> length (openEntries (timeEntries s)) \<le> 1"
proof (cases "currentActivity s")
  case None
  assume "consistent s"
  with None show ?thesis by (simp add: consistent_def)
next
  case (Some a)
  assume c: "consistent s"
  with Some have ne: "timeEntries s \<noteq> []" and bl: "openEntries (butlast (timeEntries s)) = []"
    by (simp_all add: consistent_def)
  from ne have "timeEntries s = butlast (timeEntries s) @ [last (timeEntries s)]" by simp
  then have "openEntries (timeEntries s)
      = openEntries (butlast (timeEntries s)) @ openEntries [last (timeEntries s)]"
    by (metis openEntries_append)
  with bl show ?thesis by (simp add: openEntries_def)
qed

subsection \<open>Steps, order and persistence of entries\<close>

lemma close_consistent:
  assumes "consistent s" "currentActivity s = Some c"
  shows "map (closeEntry now) (timeEntries s) = closeOpenEntry now (timeEntries s)"
proof -
  from assms have ne: "timeEntries s \<noteq> []"
    and bl: "openEntries (butlast (timeEntries s)) = []"
    and op: "isOpen (last (timeEntries s))"
    by (simp_all add: consistent_def)
  from ne have "map (closeEntry now) (timeEntries s)
      = map (closeEntry now) (butlast (timeEntries s)) @ [closeEntry now (last (timeEntries s))]"
    by (metis append_butlast_last_id list.simps(8,9) map_append)
  with bl op ne show ?thesis
    by (simp add: map_closeEntry_closed closeOpenEntry_def closeEntry_def isOpen_def)
qed

lemma run_append: "run s (xs @ ys) = run (run s xs) ys"
  by (induction xs arbitrary: s) auto

lemma successively_nth:
  "successively P xs \<Longrightarrow> Suc i < length xs \<Longrightarrow> P (xs ! i) (xs ! Suc i)"
proof (induction xs arbitrary: i)
  case Nil
  then show ?case by simp
next
  case (Cons x xs)
  then show ?case by (cases i; cases xs) auto
qed

lemma upto_mono: "upto t es \<Longrightarrow> t \<le> u \<Longrightarrow> upto u es"
  by (induction es) (auto simp: upto_def split: option.splits)

lemma selectActivity_entries:
  "consistent s \<Longrightarrow> timeEntries (selectActivity a now s) =
     (case currentActivity s of
        None \<Rightarrow> timeEntries s @ [newEntry a now]
      | Some c \<Rightarrow> if c = a then closeOpenEntry now (timeEntries s)
                  else closeOpenEntry now (timeEntries s) @ [newEntry a now])"
  by (cases "currentActivity s")
    (auto simp: selectActivity_def handleActivityClick_def Let_def newEntry_def close_consistent)

lemma chron_close:
  assumes "successively follows es" "upto t es" "t \<le> now" "es \<noteq> []"
  shows "successively follows (closeOpenEntry now es) \<and> upto now (closeOpenEntry now es)"
proof -
  from assms(4) have es: "es = butlast es @ [last es]" by simp
  have 1: "successively follows (butlast es)"
    using assms(1) es by (metis successively_append_iff)
  have 2: "butlast es = [] \<or> follows (last (butlast es)) (last es)"
    using assms(1) es by (metis successively_append_iff list.sel(1) not_Cons_self2)
  have "upto t (butlast es @ [last es])" using assms(2) es by simp
  then have 3: "upto t (butlast es)" "startTime (last es) \<le> t"
    by (simp_all add: upto_def)
  show ?thesis
    using 1 2 3 assms(3,4) upto_mono[OF 3(1) assms(3)]
    by (auto simp: closeOpenEntry_def successively_append_iff follows_def upto_def
        split: option.splits)
qed

lemma chron_new:
  assumes "successively follows es" "upto now es"
  shows "successively follows (es @ [newEntry a now]) \<and> upto now (es @ [newEntry a now])"
proof -
  have "es \<noteq> [] \<Longrightarrow> follows (last es) (newEntry a now)"
    using assms(2) by (induction es) (auto simp: upto_def follows_def newEntry_def split: option.splits)
  with assms show ?thesis
    by (auto simp: successively_append_iff upto_def newEntry_def)
qed

lemma chron_step:
  assumes "consistent s" "successively follows (timeEntries s)" "upto t (timeEntries s)" "t \<le> now"
  shows "successively follows (timeEntries (selectActivity a now s))
       \<and> upto now (timeEntries (selectActivity a now s))"
proof (cases "currentActivity s")
  case None
  with assms show ?thesis
    by (simp add: selectActivity_entries chron_new upto_mono)
next
  case (Some c)
  with assms(1) have ne: "timeEntries s \<noteq> []" by (simp add: consistent_def)
  note cl = chron_close [OF assms(2,3,4) ne]
  with Some assms(1) show ?thesis
    by (simp add: selectActivity_entries chron_new)
qed

lemma chron_run:
  "consistent s \<Longrightarrow> successively follows (timeEntries s) \<Longrightarrow> upto t (timeEntries s)
   \<Longrightarrow> sorted (t # map snd calls)
   \<Longrightarrow> successively follows (timeEntries (run s calls))"
proof (induction calls arbitrary: s t)
  case Nil
  then show ?case by simp
next
  case (Cons c calls)
  obtain a now where c: "c = (a, now)" by (cases c)
  from Cons.prems(4) c have le: "t \<le> now" and so: "sorted (now # map snd calls)" by auto
  from chron_step [OF Cons.prems(1,2,3) le, of a]
  show ?case using Cons.IH [OF consistent_selectActivity [OF Cons.prems(1)] _ _ so] c by simp
qed

lemma chron_session:
  assumes "sorted (map snd calls)"
  shows "successively follows (timeEntries (session calls))"
proof (cases calls)
  case Nil
  then show ?thesis by (simp add: session_run initial_def)
next
  case (Cons c cs)
  have "sorted (snd c # map snd calls)" using assms Cons by simp
  from chron_run [OF consistent_initial _ _ this]
  show ?thesis by (simp add: session_run initial_def upto_def)
qed

lemma sorted_startTime: "successively follows es \<Longrightarrow> sorted (map startTime es)"
proof -
  assume "successively follows es"
  then have "successively (\<lambda>x y. startTime x \<le> startTime y) es"
    by (rule successively_mono) (simp add: follows_def)
  then have "successively (\<le>) (map startTime es)" by (simp add: successively_map)
  then show ?thesis
    by (simp add: successively_conv_sorted_wrt)
qed

lemma closeEntry_fields [simp]:
  "startTime (closeEntry now e) = startTime e" "activity (closeEntry now e) = activity e"
  by (simp_all add: closeEntry_def)

lemma step_length: "length (timeEntries s) \<le> length (timeEntries (handleActivityClick act now s))"
  by (simp add: handleActivityClick_def Let_def)

lemma step_nth:
  assumes "i < length (timeEntries s)"
  shows "startTime (timeEntries (handleActivityClick act now s) ! i) = startTime (timeEntries s ! i)"
    and "activity (timeEntries (handleActivityClick act now s) ! i) = activity (timeEntries s ! i)"
    and "endTime (timeEntries s ! i) = Some u
         \<Longrightarrow> endTime (timeEntries (handleActivityClick act now s) ! i) = Some u"
  using assms by (auto simp: handleActivityClick_def Let_def nth_append closeEntry_def)

lemma run_nth:
  "i < length (timeEntries s) \<Longrightarrow>
     i < length (timeEntries (run s calls))
     \<and> startTime (timeEntries (run s calls) ! i) = startTime (timeEntries s ! i)
     \<and> activity (timeEntries (run s calls) ! i) = activity (timeEntries s ! i)
     \<and> (endTime (timeEntries s ! i) = Some u \<longrightarrow> endTime (timeEntries (run s calls) ! i) = Some u)"
proof (induction calls arbitrary: s)
  case Nil
  then show ?case by simp
next
  case (Cons c calls)
  obtain a now where c: "c = (a, now)" by (cases c)
  let ?s = "selectActivity a now s"
  from Cons.prems step_length [of s "Some a" now] have i: "i < length (timeEntries ?s)"
    by (simp add: selectActivity_def)
  from Cons.IH [OF i] step_nth [OF Cons.prems, where act = "Some a" and now = now] c
  show ?case by (simp add: selectActivity_def)
qed

lemma handoff_session:
  assumes "calls = pre @ (b, t) # post" "currentActivity (session pre) = Some a" "a \<noteq> b"
  shows "endTime (timeEntries (session calls) ! (length (timeEntries (session pre)) - 1)) = Some t
       \<and> activity (timeEntries (session calls) ! (length (timeEntries (session pre)) - 1)) = Some a
       \<and> startTime (timeEntries (session calls) ! length (timeEntries (session pre))) = t
       \<and> activity (timeEntries (session calls) ! length (timeEntries (session pre))) = Some b"
proof -
  let ?s1 = "session pre" and ?s2 = "selectActivity b t (session pre)"
  let ?n = "length (timeEntries ?s1)"
  have c: "consistent ?s1" by (rule consistent_session)
  with assms(2) have ne: "timeEntries ?s1 \<noteq> []"
    and la: "activity (last (timeEntries ?s1)) = Some a" by (simp_all add: consistent_def)
  have e2: "timeEntries ?s2 = closeOpenEntry t (timeEntries ?s1) @ [newEntry b t]"
    using c assms(2,3) by (simp add: selectActivity_entries)
  have len: "length (closeOpenEntry t (timeEntries ?s1)) = ?n"
    using ne by (simp add: closeOpenEntry_def)
  have n1: "timeEntries ?s2 ! (?n - 1) = (last (timeEntries ?s1))\<lparr>endTime := Some t\<rparr>"
    using ne by (simp add: e2 closeOpenEntry_def nth_append)
  have n2: "timeEntries ?s2 ! ?n = newEntry b t"
    using len by (simp add: e2 nth_append)
  have fin: "session calls = run ?s2 post"
    by (simp add: assms(1) session_run run_append)
  have l1: "?n - 1 < length (timeEntries ?s2)" and l2: "?n < length (timeEntries ?s2)"
    using len by (simp_all add: e2)
  from run_nth [OF l1, where calls = post and u = t] run_nth [OF l2, where calls = post] n1 n2 la
  show ?thesis by (simp add: fin newEntry_def)
qed

lemma session_scenario:
  "session [(Moving, 0), (Traffic, 60000), (Traffic, 90000)] =
     \<lparr>currentActivity = None,
      timeEntries = [\<lparr>activity = Some Moving, startTime = 0, endTime = Some 60000\<rparr>,
                     \<lparr>activity = Some Traffic, startTime = 60000, endTime = Some 90000\<rparr>],
      startTime_st = Some 0\<rparr>"
  by (simp add: session_run initial_def selectActivity_def handleActivityClick_def closeEntry_def)

lemma validActivity_Some [simp]: "validActivity (Some a)"
  by (cases a) (simp_all add: validActivity_def)

lemma valid_step:
  "list_all (\<lambda>e. validActivity (activity e)) (timeEntries s)
   \<Longrightarrow> list_all (\<lambda>e. validActivity (activity e)) (timeEntries (selectActivity a now s))"
  by (auto simp: selectActivity_def handleActivityClick_def Let_def list_all_iff)

lemma valid_run:
  "list_all (\<lambda>e. validActivity (activity e)) (timeEntries s)
   \<Longrightarrow> list_all (\<lambda>e. validActivity (activity e)) (timeEntries (run s calls))"
  by (induction calls arbitrary: s) (auto simp: valid_step)

section \<open>Properties of the readers\<close>

subsection \<open>Evaluation\<close>

text \<open>
  The recursive equations of \<open>natString\<close> and \<open>bitLength\<close> are used where a proof asks for
  them. \<open>floor_rat_numeral\<close> evaluates the integer part of a quotient of numerals.
\<close>

declare natString.simps [simp del] bitLength.simps [simp del]

lemma floor_rat_numeral:
  "\<lfloor>(numeral a :: rat) / numeral b\<rfloor> = numeral a div numeral b"
  "\<lfloor>- ((numeral a :: rat) / numeral b)\<rfloor> = - numeral a div numeral b"
  "\<lceil>(numeral a :: rat) / numeral b\<rceil> = - (- numeral a div numeral b)"
  using floor_divide_of_int_eq [of "numeral a" "numeral b", where ?'a = rat]
    floor_divide_of_int_eq [of "- numeral a" "numeral b", where ?'a = rat]
  by (simp_all add: ceiling_def)

lemmas fl_eval = fl_def exponent_def pow2_def roundHalfEven_def Let_def
  floor_rat_numeral bitLength.simps jsSub_def jsAdd_def doubleOf_def jsRem_def jsDiv_def
  jsMul100_def

lemmas str_eval = numberToString_def padStart_def digitChar_def tenthsString_def natString.simps
  toFixed1_def

subsection \<open>An end time of zero\<close>

lemma effectiveEnd_zeroAsOpen [simp]: "effectiveEnd now (zeroAsOpen e) = effectiveEnd now e"
  by (simp add: effectiveEnd_def zeroAsOpen_def)

lemma zeroAsOpen_fields [simp]:
  "startTime (zeroAsOpen e) = startTime e" "activity (zeroAsOpen e) = activity e"
  by (simp_all add: zeroAsOpen_def)

lemma csvRow_zeroAsOpen [simp]: "csvRow tls now (zeroAsOpen e) = csvRow tls now e"
  by (simp add: csvRow_def)

lemma rows_zeroAsOpen:
  "map (\<lambda>(i, entry). csvRow tls (clock i) entry) (enumerate n (map zeroAsOpen es))
   = map (\<lambda>(i, entry). csvRow tls (clock i) entry) (enumerate n es)"
  by (induction es arbitrary: n) simp_all

lemma sumDurations_zeroAsOpen:
  "sumDurations clock i (map zeroAsOpen es) d = sumDurations clock i es d"
  by (induction es arbitrary: i d) (simp_all add: Let_def)

subsection \<open>Rounding to binary64\<close>

lemma bitLength_upper: "n < 2 ^ bitLength n"
proof (induction n rule: bitLength.induct)
  case (1 n)
  show ?case
  proof (cases "n = 0")
    case True
    then show ?thesis by (simp add: bitLength.simps)
  next
    case False
    with 1 have "n div 2 < 2 ^ bitLength (n div 2)" by simp
    then have "n < 2 * 2 ^ bitLength (n div 2)" by linarith
    with False show ?thesis by (subst bitLength.simps) simp
  qed
qed

lemma bitLength_lower: "0 < n \<Longrightarrow> 2 ^ (bitLength n - 1) \<le> n"
proof (induction n rule: bitLength.induct)
  case (1 n)
  show ?case
  proof (cases "n div 2 = 0")
    case True
    with 1(2) have "n = 1" by (simp add: div_eq_0_iff) 
    then show ?thesis by (simp add: bitLength.simps)
  next
    case False
    with 1 have ih: "2 ^ (bitLength (n div 2) - 1) \<le> n div 2" by simp
    from False have pos: "0 < bitLength (n div 2)" by (subst bitLength.simps) simp
    have "bitLength n = Suc (bitLength (n div 2))" using 1(2) by (subst bitLength.simps) simp
    then have "(2::nat) ^ (bitLength n - 1) = 2 * 2 ^ (bitLength (n div 2) - 1)"
      using pos by (cases "bitLength (n div 2)") simp_all
    also have "\<dots> \<le> 2 * (n div 2)" using ih by simp
    also have "\<dots> \<le> n" by simp
    finally show ?thesis .
  qed
qed

lemma pow2_powi: "pow2 e = 2 powi e"
  by (simp add: pow2_def power_int_def inverse_eq_divide power_one_over)

lemma pow2_pos [simp]: "0 < pow2 e"
  by (simp add: pow2_def)

lemma pow2_add: "pow2 (a + b) = pow2 a * pow2 b"
  by (simp add: pow2_powi power_int_add)

lemma pow2_nat: "pow2 (int n) = 2 ^ n"
  by (simp add: pow2_def)

lemma exponent_lower:
  assumes "0 < x"
  shows "pow2 (exponent x) \<le> x"
proof (cases "1 \<le> x")
  case True
  let ?n = "nat \<lfloor>x\<rfloor>"
  from True have n: "0 < ?n" by simp
  then have b: "0 < bitLength ?n" by (subst bitLength.simps) simp
  from True have "exponent x = int (bitLength ?n - 1)"
    using b by (simp add: exponent_def)
  then have "pow2 (exponent x) = 2 ^ (bitLength ?n - 1)" by (simp add: pow2_nat)
  also have "\<dots> = of_nat (2 ^ (bitLength ?n - 1))" by simp
  also have "\<dots> \<le> of_nat ?n" using bitLength_lower [OF n] by (simp only: of_nat_le_iff)
  also have "\<dots> = of_int \<lfloor>x\<rfloor>" using True by simp
  also have "\<dots> \<le> x" by simp
  finally show ?thesis .
next
  case False
  let ?c = "\<lceil>1 / x\<rceil>"
  let ?b = "bitLength (nat (?c - 1))"
  from False assms have c1: "1 \<le> ?c" by (simp add: less_ceiling_iff)
  have "nat (?c - 1) < 2 ^ ?b" by (rule bitLength_upper)
  then have "?c - 1 < 2 ^ ?b" using c1 by (simp add: nat_less_iff)
  then have "?c \<le> 2 ^ ?b" by simp
  then have "(of_int ?c :: rat) \<le> 2 ^ ?b" by (metis of_int_le_iff of_int_numeral of_int_power)
  moreover have "1 / x \<le> of_int ?c" by simp
  ultimately have "1 / x \<le> 2 ^ ?b" by linarith
  then have "1 / 2 ^ ?b \<le> x" using assms by (simp add: field_simps)
  moreover from False have "pow2 (exponent x) = 1 / 2 ^ ?b"
    by (simp add: exponent_def pow2_def)
  ultimately show ?thesis by simp
qed

lemma exponent_upper:
  assumes "0 < x"
  shows "x < pow2 (exponent x + 1)"
proof (cases "1 \<le> x")
  case True
  let ?n = "nat \<lfloor>x\<rfloor>"
  from True have n: "0 < ?n" by simp
  then have b: "0 < bitLength ?n" by (subst bitLength.simps) simp
  from True have "exponent x + 1 = int (bitLength ?n)"
    using b by (simp add: exponent_def)
  then have p: "pow2 (exponent x + 1) = 2 ^ bitLength ?n" by (simp add: pow2_nat)
  have "?n < 2 ^ bitLength ?n" by (rule bitLength_upper)
  then have "\<lfloor>x\<rfloor> < 2 ^ bitLength ?n" using True by (simp add: nat_less_iff)
  then have "\<lfloor>x\<rfloor> + 1 \<le> 2 ^ bitLength ?n" by simp
  then have "(of_int (\<lfloor>x\<rfloor> + 1) :: rat) \<le> 2 ^ bitLength ?n"
    by (metis of_int_le_iff of_int_numeral of_int_power)
  moreover have "x < of_int (\<lfloor>x\<rfloor> + 1)" by linarith
  ultimately show ?thesis using p by linarith
next
  case False
  let ?c = "\<lceil>1 / x\<rceil>"
  let ?m = "nat (?c - 1)"
  let ?b = "bitLength ?m"
  from False assms have c1: "1 \<le> ?c" by (simp add: less_ceiling_iff)
  from False have e: "exponent x + 1 = 1 - int ?b" by (simp add: exponent_def)
  have lt: "of_int (?c - 1) < 1 / x" using ceiling_correct [of "1 / x"] by simp
  show ?thesis
  proof (cases "?m = 0")
    case True
    then have "?b = 0" by (simp add: bitLength.simps)
    with e have "pow2 (exponent x + 1) = 2" by (simp add: pow2_def)
    with False show ?thesis by simp
  next
    case m: False
    then have bpos: "0 < ?b" by (subst bitLength.simps) simp
    from m have "2 ^ (?b - 1) \<le> ?m" by (intro bitLength_lower) simp
    then have "int (2 ^ (?b - 1)) \<le> int ?m" by (simp only: of_nat_le_iff)
    then have "(2::int) ^ (?b - 1) \<le> ?c - 1" using c1 by simp
    then have "(2::rat) ^ (?b - 1) \<le> of_int (?c - 1)"
      by (metis of_int_le_iff of_int_numeral of_int_power)
    with lt have "2 ^ (?b - 1) < 1 / x" by linarith
    then have "x < 1 / 2 ^ (?b - 1)" using assms by (simp add: field_simps)
    moreover from e bpos have "pow2 (exponent x + 1) = 1 / 2 ^ (?b - 1)"
      by (cases "?b") (simp_all add: pow2_def nat_diff_distrib)
    ultimately show ?thesis by simp
  qed
qed

lemma bitLength_pos: "0 < n \<Longrightarrow> 0 < bitLength n"
  by (subst bitLength.simps) simp

lemma roundHalfEven_error: "\<bar>of_int (roundHalfEven m) - m\<bar> \<le> 1 / 2"
proof -
  have "of_int \<lfloor>m\<rfloor> \<le> m" "m < of_int \<lfloor>m\<rfloor> + 1" by linarith+
  then show ?thesis by (auto simp: roundHalfEven_def Let_def)
qed

lemma roundHalfEven_of_int [simp]: "roundHalfEven (of_int n) = n"
  by (simp add: roundHalfEven_def)

lemma fl_0 [simp]: "fl 0 = 0"
  by (simp add: fl_def)

lemma fl_error: "\<bar>fl x - x\<bar> \<le> \<bar>x\<bar> / 2 ^ 53"
proof (cases "x = 0")
  case True
  then show ?thesis by simp
next
  case False
  define e where "e = exponent \<bar>x\<bar>"
  define u where "u = pow2 (e - 52)"
  define r where "r = roundHalfEven (\<bar>x\<bar> / u)"
  have upos: "0 < u" by (simp add: u_def)
  from False have fl: "fl x = sgn x * of_int r * u"
    by (simp add: fl_def Let_def r_def u_def e_def)
  have x: "x = sgn x * (\<bar>x\<bar> / u) * u" using upos by (simp add: sgn_mult_abs)
  have "fl x - x = sgn x * ((of_int r - \<bar>x\<bar> / u) * u)"
    by (subst (2) x, subst fl) (simp add: algebra_simps)
  then have "\<bar>fl x - x\<bar> = \<bar>of_int r - \<bar>x\<bar> / u\<bar> * u"
    using False upos by (simp add: abs_mult abs_sgn_eq)
  also have "\<dots> \<le> (1 / 2) * u"
    using roundHalfEven_error [of "\<bar>x\<bar> / u"] upos unfolding r_def
    by (intro mult_right_mono) simp_all
  also have "\<dots> = pow2 e / 2 ^ 53"
  proof -
    have "pow2 e = pow2 (e - 52) * pow2 52" using pow2_add [of "e - 52" 52] by simp
    then show ?thesis by (simp add: u_def pow2_def)
  qed
  also have "\<dots> \<le> \<bar>x\<bar> / 2 ^ 53"
    using exponent_lower [of "\<bar>x\<bar>"] False by (simp add: e_def divide_right_mono)
  finally show ?thesis .
qed

lemma fl_int:
  assumes "\<bar>n\<bar> \<le> 2 ^ 53"
  shows "fl (of_int n) = of_int n"
proof (cases "n = 0")
  case True
  then show ?thesis by simp
next
  case False
  define a where "a = \<bar>n\<bar>"
  define e where "e = exponent (of_int a)"
  define u where "u = pow2 (e - 52)"
  from False have a1: "1 \<le> a" by (simp add: a_def)
  have lo: "pow2 e \<le> of_int a" unfolding e_def using a1 by (intro exponent_lower) simp
  have e0: "0 \<le> e" using a1 bitLength_pos [of "nat a"] by (simp add: e_def exponent_def)
  have "\<exists>k. (of_int a :: rat) / u = of_int k"
  proof (cases "e \<le> 52")
    case True
    then have "u = 1 / 2 ^ nat (52 - e)" by (simp add: u_def pow2_def)
    then have "(of_int a :: rat) / u = of_int (a * 2 ^ nat (52 - e))" by simp
    then show ?thesis by blast
  next
    case e: False
    from lo e0 have "(2::rat) ^ nat e \<le> of_int a" by (simp add: pow2_def)
    then have "(2::int) ^ nat e \<le> a" by (metis of_int_le_iff of_int_numeral of_int_power)
    moreover have "a \<le> 2 ^ 53" using assms by (simp add: a_def)
    ultimately have le: "(2::int) ^ nat e \<le> 2 ^ 53" by linarith
    have "nat e \<le> 53" by (rule power_le_imp_le_exp [of "2::int"]) (use le in simp_all)
    with e have e53: "e = 53" by linarith
    with \<open>2 ^ nat e \<le> a\<close> \<open>a \<le> 2 ^ 53\<close> have "a = 2 ^ 53" by simp
    moreover from e53 have "u = 2" by (simp add: u_def pow2_def)
    ultimately have "(of_int a :: rat) / u = of_int (2 ^ 52)" by simp
    then show ?thesis by blast
  qed
  then obtain k where k: "(of_int a :: rat) / u = of_int k" ..
  have upos: "0 < u" by (simp add: u_def)
  have abs: "\<bar>of_int n :: rat\<bar> = of_int a" by (simp add: a_def)
  from False have "fl (of_int n) = sgn (of_int n) * of_int (roundHalfEven (of_int a / u)) * u"
    by (simp add: fl_def Let_def abs u_def e_def)
  also have "\<dots> = sgn (of_int n) * (of_int a / u) * u" by (simp add: k)
  also have "\<dots> = sgn (of_int n) * of_int a" using upos by simp
  also have "\<dots> = of_int n" unfolding abs [symmetric] by (simp add: sgn_mult_abs)
  finally show ?thesis .
qed

lemma doubleOf_exact: "\<bar>n\<bar> \<le> 2 ^ 53 \<Longrightarrow> doubleOf n = n"
  by (simp add: doubleOf_def fl_int)

lemma floor_fl_div:
  assumes "\<bar>a\<bar> < 2 ^ 53" "0 < b"
  shows "\<lfloor>fl (of_int a / of_int b)\<rfloor> = a div b"
proof (cases "a mod b = 0")
  case True
  then have ab: "a div b * b = a" using div_mult_mod_eq [of a b] by simp
  then have "(of_int a :: rat) / of_int b = of_int (a div b)"
    using assms(2) by (metis nonzero_eq_divide_eq of_int_0_eq_iff of_int_mult less_irrefl)
  moreover have "\<bar>a div b\<bar> \<le> 2 ^ 53"
  proof -
    have "\<bar>a div b\<bar> * 1 \<le> \<bar>a div b\<bar> * b" using assms(2) by (intro mult_left_mono) simp_all
    also have "\<dots> = \<bar>a\<bar>" using ab assms(2) by (metis abs_mult abs_of_pos)
    finally show ?thesis using assms(1) by simp
  qed
  ultimately show ?thesis by (simp add: fl_int)
next
  case False
  define x :: rat where "x = of_int a / of_int b"
  define k where "k = a div b"
  define r where "r = a mod b"
  have bpos: "(0::rat) < of_int b" using assms(2) by simp
  have r: "1 \<le> r" "r \<le> b - 1"
    using False assms(2) pos_mod_bound [of b a] pos_mod_sign [of b a]
    unfolding r_def by linarith+
  have a: "a = k * b + r" by (simp add: k_def r_def)
  have xk: "x = of_int k + of_int r / of_int b"
    using bpos by (simp add: x_def a field_simps)
  have "\<bar>x\<bar> < 2 ^ 53 / of_int b"
  proof -
    have "(of_int \<bar>a\<bar> :: rat) < 2 ^ 53"
      using assms(1) by (metis of_int_less_iff of_int_numeral of_int_power)
    then show ?thesis using bpos by (simp add: x_def divide_strict_right_mono)
  qed
  then have "\<bar>x\<bar> / 2 ^ 53 < 1 / of_int b" by (simp add: field_simps)
  with fl_error [of x] have err: "\<bar>fl x - x\<bar> < 1 / of_int b" by linarith
  have lo: "of_int k + 1 / of_int b \<le> x"
    using r(1) bpos by (simp add: xk divide_right_mono)
  have hi: "x \<le> of_int k + 1 - 1 / of_int b"
  proof -
    have "(of_int r :: rat) \<le> of_int b - 1" using r(2) by (metis of_int_1 of_int_diff of_int_le_iff)
    then have "(of_int r :: rat) / of_int b \<le> (of_int b - 1) / of_int b"
      using bpos by (simp add: divide_right_mono)
    also have "\<dots> = 1 - 1 / of_int b" using bpos by (simp add: field_simps)
    finally show ?thesis by (simp add: xk)
  qed
  from err lo hi have "of_int k \<le> fl x" "fl x < of_int k + 1" by linarith+
  then have "\<lfloor>fl x\<rfloor> = k" by (rule floor_unique)
  then show ?thesis by (simp add: x_def k_def)
qed

subsection \<open>Digits, padding and the duration text\<close>

lemma digit_cases:
  "d < (10::nat) \<Longrightarrow>
     d = 0 \<or> d = 1 \<or> d = 2 \<or> d = 3 \<or> d = 4 \<or> d = 5 \<or> d = 6 \<or> d = 7 \<or> d = 8 \<or> d = 9"
  by arith

lemma digitValue_digitChar: "d < 10 \<Longrightarrow> digitValue (digitChar d) = Some d"
  using digit_cases [of d] by (auto simp: digitValue_def digitChar_def)

lemma natString_digits: "c \<in> set (natString n) \<Longrightarrow> digitValue c \<noteq> None"
proof (induction n rule: natString.induct)
  case (1 n)
  show ?case
  proof (cases "n < 10")
    case True
    with 1(2) have "c = digitChar n" by (subst (asm) natString.simps) simp
    with True show ?thesis by (simp add: digitValue_digitChar)
  next
    case False
    with 1(2) have "c \<in> set (natString (n div 10)) \<or> c = digitChar (n mod 10)"
      by (subst (asm) natString.simps) auto
    then show ?thesis
    proof
      assume "c \<in> set (natString (n div 10))"
      with 1(1) False show ?thesis by simp
    next
      assume "c = digitChar (n mod 10)"
      then show ?thesis by (simp add: digitValue_digitChar)
    qed
  qed
qed

lemma natString_nonempty: "natString n \<noteq> []"
  by (subst natString.simps) simp

lemma parseDigits_append:
  "parseDigits acc (xs @ ys) = (case parseDigits acc xs of None \<Rightarrow> None | Some a \<Rightarrow> parseDigits a ys)"
  by (induction xs arbitrary: acc) (simp_all split: option.splits)

lemma parseDigits_natString: "parseDigits 0 (natString n) = Some n"
proof (induction n rule: natString.induct)
  case (1 n)
  show ?case
  proof (cases "n < 10")
    case True
    then show ?thesis by (subst natString.simps) (simp add: digitValue_digitChar)
  next
    case False
    with 1 have "parseDigits 0 (natString (n div 10)) = Some (n div 10)" by simp
    with False show ?thesis
      by (subst natString.simps) (simp add: parseDigits_append digitValue_digitChar)
  qed
qed

lemma parseNat_natString: "parseNat (natString n) = Some n"
  by (simp add: parseNat_def natString_nonempty parseDigits_natString)

lemma parseNat_twoDigits: "n < 100 \<Longrightarrow> parseNat (twoDigits n) = Some n"
  by (simp add: parseNat_def twoDigits_def digitValue_digitChar)

lemma parseNat_threeDigits: "n < 1000 \<Longrightarrow> parseNat (threeDigits n) = Some n"
proof -
  assume n: "n < 1000"
  then have "n div 100 < 10" by simp
  moreover have "(n div 100 * 10 + n div 10 mod 10) * 10 + n mod 10 = n"
  proof -
    have "n div 100 = n div 10 div 10" using div_mult2_eq [of n 10 10] by simp
    then show ?thesis by simp
  qed
  ultimately show ?thesis
    by (simp add: parseNat_def threeDigits_def digitValue_digitChar)
qed

lemma jsRem_bound: "0 < y \<Longrightarrow> \<bar>jsRem x y\<bar> < y"
  by (simp add: jsRem_def abs_mult abs_sgn_eq)

lemma jsRem_nonneg: "0 \<le> x \<Longrightarrow> 0 < y \<Longrightarrow> jsRem x y = x mod y"
  by (cases "x = 0") (simp_all add: jsRem_def)

lemma formatDuration_parts:
  assumes "\<bar>end - start\<bar> < 2 ^ 53"
  shows "formatDuration start end =
     numberToString ((end - start) div 60000) @ '':''
     @ padStart 2 CHR ''0'' (numberToString (jsRem (end - start) 60000 div 1000)) @ ''.''
     @ padStart 3 CHR ''0'' (numberToString (jsRem (end - start) 1000))"
proof -
  define d where "d = end - start"
  have sub: "jsSub end start = d" using assms by (simp add: jsSub_def doubleOf_exact d_def)
  have m: "\<lfloor>fl (of_int d / 60000)\<rfloor> = d div 60000"
    using floor_fl_div [of d 60000] assms by (simp add: d_def)
  have "\<bar>jsRem d 60000\<bar> < 2 ^ 53" using jsRem_bound [of 60000 d] by simp
  then have s: "\<lfloor>fl (of_int (jsRem d 60000) / 1000)\<rfloor> = jsRem d 60000 div 1000"
    using floor_fl_div [of "jsRem d 60000" 1000] by simp
  show ?thesis
    unfolding formatDuration_def sub Let_def m s d_def [symmetric] ..
qed

lemma natString_one: "n < 10 \<Longrightarrow> natString n = [digitChar n]"
  by (subst natString.simps) simp

lemma natString_more: "10 \<le> n \<Longrightarrow> natString n = natString (n div 10) @ [digitChar (n mod 10)]"
  by (subst natString.simps) simp

lemma natString_two: "10 \<le> n \<Longrightarrow> n < 100 \<Longrightarrow> natString n = twoDigits n"
proof -
  assume n: "10 \<le> n" "n < 100"
  then have "n div 10 < 10" by simp
  with n show ?thesis by (simp add: natString_more natString_one twoDigits_def)
qed

lemma padStart_twoDigits: "n < 100 \<Longrightarrow> padStart 2 CHR ''0'' (natString n) = twoDigits n"
proof (cases "n < 10")
  case True
  then show ?thesis
    by (simp add: natString_one padStart_def twoDigits_def digitChar_def)
next
  case False
  assume "n < 100"
  with False show ?thesis
    by (simp add: natString_two padStart_def twoDigits_def)
qed

lemma padStart_threeDigits: "n < 1000 \<Longrightarrow> padStart 3 CHR ''0'' (natString n) = threeDigits n"
proof -
  assume n: "n < 1000"
  consider "n < 10" | "10 \<le> n" "n < 100" | "100 \<le> n" by linarith
  then show ?thesis
  proof cases
    case 1
    then show ?thesis
      by (simp add: natString_one padStart_def threeDigits_def digitChar_def numeral_2_eq_2)
  next
    case 2
    then have "n div 100 = 0" by simp
    with 2 show ?thesis
      by (simp add: natString_two padStart_def threeDigits_def twoDigits_def digitChar_def)
  next
    case 3
    then have a: "10 \<le> n div 10" "n div 10 < 100" using n by simp_all
    have b: "n div 10 div 10 = n div 100" using div_mult2_eq [of n 10 10] by simp
    from 3 have "natString n = natString (n div 10) @ [digitChar (n mod 10)]"
      by (simp add: natString_more)
    with a b show ?thesis
      by (simp add: natString_two padStart_def threeDigits_def twoDigits_def)
  qed
qed

lemma formatDuration_nonneg:
  assumes "0 \<le> end - start" "end - start < 2 ^ 53"
  shows "formatDuration start end = durationText (end - start)"
proof -
  define d where "d = end - start"
  have d: "0 \<le> d" "\<bar>d\<bar> < 2 ^ 53" using assms by (simp_all add: d_def)
  have r6: "jsRem d 60000 = d mod 60000" and r1: "jsRem d 1000 = d mod 1000"
    using d(1) by (simp_all add: jsRem_nonneg)
  have sec: "d mod 60000 div 1000 = d div 1000 mod 60"
  proof -
    have "d mod 60000 = 1000 * (d div 1000 mod 60) + d mod 1000"
      using zmod_zmult2_eq [of 60 d 1000] by simp
    then show ?thesis by simp
  qed
  have m0: "0 \<le> d div 60000" using d(1) by (simp add: pos_imp_zdiv_nonneg_iff)
  have s0: "0 \<le> d div 1000 mod 60" "d div 1000 mod 60 < 60" by simp_all
  have ms0: "0 \<le> d mod 1000" "d mod 1000 < 1000" by simp_all
  have "formatDuration start end =
     numberToString (d div 60000) @ '':''
     @ padStart 2 CHR ''0'' (numberToString (d div 1000 mod 60)) @ ''.''
     @ padStart 3 CHR ''0'' (numberToString (d mod 1000))"
    using formatDuration_parts [of "end" start] d(2) by (simp add: d_def [symmetric] r6 r1 sec)
  also have "\<dots> = durationText d"
  proof -
    have n: "\<not> d div 60000 < 0" "\<not> d div 1000 mod 60 < 0" "\<not> d mod 1000 < 0"
      using m0 s0(1) ms0(1) by linarith+
    have b: "nat (d div 1000 mod 60) < 100" "nat (d mod 1000) < 1000"
      using s0 ms0 by linarith+
    show ?thesis
      by (simp add: numberToString_def durationText_def n padStart_twoDigits [OF b(1)]
          padStart_threeDigits [OF b(2)])
  qed
  finally show ?thesis by (simp add: d_def)
qed

lemma splitOn_none: "c \<notin> set w \<Longrightarrow> splitOn c w = [w]"
  by (induction w) auto

lemma splitOn_append: "c \<notin> set w \<Longrightarrow> splitOn c (w @ c # rest) = w # splitOn c rest"
  by (induction w) auto

lemma splitOn_join:
  "list_all (\<lambda>x. c \<notin> set x) xs \<Longrightarrow> xs \<noteq> [] \<Longrightarrow> splitOn c (joinWith [c] xs) = xs"
proof (induction "[c]" xs rule: joinWith.induct)
  case 1
  then show ?case by simp
next
  case (2 x)
  then show ?case by (simp add: splitOn_none)
next
  case (3 x y zs)
  then show ?case by (simp add: splitOn_append)
qed

lemma digitValue_seps [simp]:
  "digitValue CHR '':'' = None" "digitValue CHR ''.'' = None" "digitValue CHR '','' = None"
  "digitValue (CHR 0x0A) = None"
  by (simp_all add: digitValue_def)

lemma natString_no_sep:
  "digitValue c = None \<Longrightarrow> c \<notin> set (natString n)"
  using natString_digits by blast

lemma twoDigits_no_sep: "digitValue c = None \<Longrightarrow> n < 100 \<Longrightarrow> c \<notin> set (twoDigits n)"
proof -
  assume c: "digitValue c = None" and "n < 100"
  then have "n div 10 < 10" "n mod 10 < 10" by simp_all
  then have "digitValue (digitChar (n div 10)) \<noteq> None" "digitValue (digitChar (n mod 10)) \<noteq> None"
    by (simp_all add: digitValue_digitChar)
  with c show ?thesis by (auto simp: twoDigits_def)
qed

lemma threeDigits_no_sep: "digitValue c = None \<Longrightarrow> n < 1000 \<Longrightarrow> c \<notin> set (threeDigits n)"
proof -
  assume c: "digitValue c = None" and "n < 1000"
  then have "n div 100 < 10" "n div 10 mod 10 < 10" "n mod 10 < 10" by simp_all
  then have "digitValue (digitChar (n div 100)) \<noteq> None"
    "digitValue (digitChar (n div 10 mod 10)) \<noteq> None" "digitValue (digitChar (n mod 10)) \<noteq> None"
    by (simp_all add: digitValue_digitChar)
  with c show ?thesis by (auto simp: threeDigits_def)
qed

lemma duration_parts_sum:
  assumes "0 \<le> (d::int)"
  shows "int (nat (d div 60000)) * 60000 + int (nat (d div 1000 mod 60)) * 1000
         + int (nat (d mod 1000)) = d"
proof -
  define q a b c where "q = d div 1000" and "a = q div 60" and "b = q mod 60" and "c = d mod 1000"
  have a: "d div 60000 = a" using zdiv_zmult2_eq [of 60 d 1000] by (simp add: a_def q_def)
  have q0: "0 \<le> q" using assms by (simp add: q_def pos_imp_zdiv_nonneg_iff)
  then have a0: "0 \<le> a" by (simp add: a_def pos_imp_zdiv_nonneg_iff)
  have b0: "0 \<le> b" and c0: "0 \<le> c" by (simp_all add: b_def c_def)
  have e1: "a * 60 + b = q" by (simp add: a_def b_def)
  have e2: "q * 1000 + c = d" by (simp add: q_def c_def)
  have "a * 60000 + b * 1000 + c = d" using e1 e2 by linarith
  then show ?thesis
    using a0 b0 c0 unfolding a b_def [symmetric] c_def [symmetric] q_def [symmetric] by simp
qed

lemma parseDuration_durationText:
  assumes "0 \<le> d"
  shows "parseDuration (durationText d) = Some d"
proof -
  let ?m = "natString (nat (d div 60000))"
  let ?s = "twoDigits (nat (d div 1000 mod 60))"
  let ?ms = "threeDigits (nat (d mod 1000))"
  have b: "nat (d div 1000 mod 60) < 100" "nat (d mod 1000) < 1000" by simp_all
  have 1: "splitOn CHR '':'' (durationText d) = [?m, ?s @ CHR ''.'' # ?ms]"
    using b by (simp add: durationText_def splitOn_append splitOn_none natString_no_sep
        twoDigits_no_sep threeDigits_no_sep)
  have 2: "splitOn CHR ''.'' (?s @ CHR ''.'' # ?ms) = [?s, ?ms]"
    using b by (simp add: splitOn_append splitOn_none twoDigits_no_sep threeDigits_no_sep)
  show ?thesis
    using b duration_parts_sum [OF assms]
    by (simp add: parseDuration_def 1 2 parseNat_natString parseNat_twoDigits
        parseNat_threeDigits)
qed

lemma durationText_no_sep:
  "c = CHR '','' \<or> c = CHR 0x0A \<Longrightarrow> c \<notin> set (durationText d)"
proof -
  assume c: "c = CHR '','' \<or> c = CHR 0x0A"
  then have dv: "digitValue c = None" by auto
  have b: "nat (d div 1000 mod 60) < 100" "nat (d mod 1000) < 1000" by simp_all
  from c show ?thesis
    using natString_no_sep [OF dv] twoDigits_no_sep [OF dv b(1)] threeDigits_no_sep [OF dv b(2)]
    by (auto simp: durationText_def)
qed

lemma activityString_no_sep:
  "c = CHR '','' \<or> c = CHR 0x0A \<Longrightarrow> c \<notin> set (activityString act)"
  by (cases act rule: option.exhaust; cases "the act") (auto simp: activityString_def)

lemma newline_char: "CHR 0x0A \<noteq> CHR '',''" "CHR '','' \<noteq> CHR 0x0A"
  by simp_all

lemma headerRow_eq: "joinWith '','' headers = headerRow"
  by (simp add: headers_def headerRow_def)

lemma headerRow_no_newline: "CHR 0x0A \<notin> set headerRow"
  by (simp add: headerRow_def)

lemma csvRow_nonneg:
  assumes "0 \<le> effectiveDuration now e" "effectiveDuration now e < 2 ^ 53"
  shows "csvRow tls now e =
     activityString (activity e) @ CHR '','' # tls (startTime e) @ CHR '','' #
     tls (effectiveEnd now e) @ CHR '','' # durationText (effectiveDuration now e)"
proof -
  have "formatDuration (startTime e) (effectiveEnd now e) = durationText (effectiveDuration now e)"
    unfolding effectiveDuration_def
    by (rule formatDuration_nonneg) (use assms in \<open>unfold effectiveDuration_def\<close>)
  then show ?thesis by (simp add: csvRow_def Let_def formatTimeForCSV_def)
qed

lemma parseRow_csvRow:
  assumes "\<forall>t. plainTime tls t"
    and "0 \<le> effectiveDuration now e" "effectiveDuration now e < 2 ^ 53"
  shows "parseRow (csvRow tls now e) = Some (activityString (activity e), effectiveDuration now e)"
proof -
  have t: "CHR '','' \<notin> set (tls t)" for t using assms(1) by (simp add: plainTime_def)
  show ?thesis
    using assms(2)
    by (simp add: parseRow_def csvRow_nonneg [OF assms(2,3)] splitOn_append splitOn_none t
        activityString_no_sep durationText_no_sep parseDuration_durationText)
qed

lemma csvRow_no_newline:
  assumes "\<forall>t. plainTime tls t"
    and "0 \<le> effectiveDuration now e" "effectiveDuration now e < 2 ^ 53"
  shows "CHR 0x0A \<notin> set (csvRow tls now e)"
proof -
  have t: "CHR 0x0A \<notin> set (tls t)" for t using assms(1) by (simp add: plainTime_def)
  show ?thesis
    by (simp add: csvRow_nonneg [OF assms(2,3)] t activityString_no_sep durationText_no_sep)
qed

lemma rows_parse:
  assumes "\<forall>t. plainTime tls t"
  shows "list_all (\<lambda>(i, e). 0 \<le> effectiveDuration (clock i) e \<and> effectiveDuration (clock i) e < 2 ^ 53)
           (enumerate n es)
     \<Longrightarrow> those (map parseRow (map (\<lambda>(i, e). csvRow tls (clock i) e) (enumerate n es)))
         = Some (map (\<lambda>(i, e). (activityString (activity e), effectiveDuration (clock i) e))
                  (enumerate n es))
       \<and> list_all (\<lambda>x. CHR 0x0A \<notin> set x) (map (\<lambda>(i, e). csvRow tls (clock i) e) (enumerate n es))"
proof (induction es arbitrary: n)
  case Nil
  then show ?case by simp
next
  case (Cons e es)
  then show ?case
    by (simp add: parseRow_csvRow [OF assms] csvRow_no_newline [OF assms])
qed

lemma utcTime_plain: "plainTime utcTime t"
proof -
  define secs where "secs = nat (t div 1000 mod 86400)"
  have b: "secs div 60 mod 60 < 100" "secs mod 60 < 100" by simp_all
  have c: "digitValue CHR '','' = None" "digitValue (CHR 0x0A) = None" by simp_all
  show ?thesis
    unfolding plainTime_def utcTime_def Let_def secs_def [symmetric]
    using natString_no_sep [OF c(1)] natString_no_sep [OF c(2)]
      twoDigits_no_sep [OF c(1) b(1)] twoDigits_no_sep [OF c(1) b(2)]
      twoDigits_no_sep [OF c(2) b(1)] twoDigits_no_sep [OF c(2) b(2)]
    by simp
qed


lemma utcTime_examples:
  "utcTime 1762131744000 = ''1:02:24 AM''" "utcTime 1762131931045 = ''1:05:31 AM''"
  by (simp_all add: utcTime_def natString_one twoDigits_def digitChar_def Let_def)

subsection \<open>Calls within one render\<close>

lemma agrees_initial: "agrees initial"
  by (simp add: agrees_def initial_def openEntries_def)

lemma agrees_handle: "agrees (handleInRender r (Some a) now s)"
  by (cases "currentActivity r")
    (auto simp: agrees_def handleInRender_def Let_def isOpen_def)

lemma agrees_batch: "agrees s \<Longrightarrow> agrees (batch r s calls)"
  by (induction calls arbitrary: s) (auto simp: agrees_handle)

lemma agrees_renders: "agrees s \<Longrightarrow> agrees (renders s batches)"
  by (induction batches arbitrary: s) (auto simp: commit_def agrees_batch)

lemma agrees_schedule: "agrees (schedule batches)"
  by (simp add: schedule_def agrees_renders agrees_initial)

lemma agrees_iff:
  assumes "agrees s"
  shows "(currentActivity s = Some a \<longleftrightarrow>
      timeEntries s \<noteq> [] \<and> isOpen (last (timeEntries s)) \<and> activity (last (timeEntries s)) = Some a)
   \<and> (currentActivity s = None \<longleftrightarrow> openEntries (timeEntries s) = [])"
proof (cases "currentActivity s")
  case None
  with assms have "openEntries (timeEntries s) = []" by (simp add: agrees_def)
  moreover from this have "timeEntries s \<noteq> [] \<Longrightarrow> \<not> isOpen (last (timeEntries s))"
    by (metis filter_empty_conv last_in_set openEntries_def)
  ultimately show ?thesis using None by auto
next
  case (Some b)
  with assms have ne: "timeEntries s \<noteq> []" and op: "isOpen (last (timeEntries s))"
    and ac: "activity (last (timeEntries s)) = Some b"
    by (simp_all add: agrees_def)
  from ne op have "openEntries (timeEntries s) \<noteq> []"
    by (metis filter_empty_conv last_in_set openEntries_def)
  with Some ne op ac show ?thesis by auto
qed

lemma valid_handle:
  "list_all (\<lambda>e. validActivity (activity e)) (timeEntries s)
   \<Longrightarrow> list_all (\<lambda>e. validActivity (activity e)) (timeEntries (handleInRender r (Some a) now s))"
  by (auto simp: handleInRender_def Let_def list_all_iff)

lemma valid_batch:
  "list_all (\<lambda>e. validActivity (activity e)) (timeEntries s)
   \<Longrightarrow> list_all (\<lambda>e. validActivity (activity e)) (timeEntries (batch r s calls))"
  by (induction calls arbitrary: s) (auto simp: valid_handle)

lemma valid_renders:
  "list_all (\<lambda>e. validActivity (activity e)) (timeEntries s)
   \<Longrightarrow> list_all (\<lambda>e. validActivity (activity e)) (timeEntries (renders s batches))"
  by (induction batches arbitrary: s) (auto simp: commit_def valid_batch)

lemmas sched_eval = schedule_def commit_def handleInRender_def initial_def closeEntry_def

subsection \<open>The end used by the readers\<close>

lemma effectiveEnd_falsy:
  "effectiveEnd now e = (if endTime e = None \<or> endTime e = Some 0 then now else the (endTime e))"
  by (auto simp: effectiveEnd_def split: option.splits)

lemma sumDurations_foldl:
  "sumDurations clock n es d a =
     foldl (\<lambda>acc (i, e).
              if activity e = Some a
              then jsAdd acc (jsSub (if endTime e = None \<or> endTime e = Some 0 then clock i
                                     else the (endTime e)) (startTime e))
              else acc)
       (d a) (enumerate n es)"
proof (induction es arbitrary: n d)
  case Nil
  then show ?case by simp
next
  case (Cons e es)
  show ?case
    by (cases "activity e") (simp_all add: Cons.IH Let_def effectiveEnd_falsy)
qed

lemma jsSub_exact: "\<bar>x - y\<bar> \<le> 2 ^ 53 \<Longrightarrow> jsSub x y = x - y"
  by (simp add: jsSub_def doubleOf_exact)

lemma jsAdd_exact: "\<bar>x + y\<bar> \<le> 2 ^ 53 \<Longrightarrow> jsAdd x y = x + y"
  by (simp add: jsAdd_def doubleOf_exact)

lemma share_80: "toFixed1 (jsMul100 (jsDiv 20000 25000)) = Some ''80.0''"
  by (simp add: fl_eval str_eval)

lemma share_20: "toFixed1 (jsMul100 (jsDiv 5000 25000)) = Some ''20.0''"
  by (simp add: fl_eval str_eval)

lemma share_0: "toFixed1 (jsMul100 (jsDiv 0 25000)) = Some ''0.0''"
  by (simp add: fl_eval str_eval)

lemma utcTime_examples2:
  "utcTime (- 5000) = ''11:59:55 PM''" "utcTime 15000 = ''12:00:15 AM''"
  by (simp_all add: utcTime_def natString_one natString_more twoDigits_def digitChar_def Let_def)

subsection \<open>Exact sums and the error of a share\<close>

lemma absSum_nonneg: "0 \<le> absSum clock n es"
  unfolding absSum_def by (rule sum_list_nonneg) auto

lemma absSum_Cons:
  "absSum clock n (e # es) = \<bar>effectiveDuration (clock n) e\<bar> + absSum clock (Suc n) es"
  by (simp add: absSum_def)

lemma exactSum_Cons:
  "exactSum clock n (e # es) a =
     (if activity e = Some a then effectiveDuration (clock n) e else 0) + exactSum clock (Suc n) es a"
  by (simp add: exactSum_def)

lemma exactSum_Nil [simp]: "exactSum clock n [] a = 0"
  by (simp add: exactSum_def)

lemma sumDurations_exact:
  "\<bar>d Moving\<bar> + \<bar>d Traffic\<bar> + \<bar>d Dwelling\<bar> + absSum clock n es \<le> 2 ^ 53
   \<Longrightarrow> sumDurations clock n es d a = d a + exactSum clock n es a"
proof (induction es arbitrary: n d)
  case Nil
  then show ?case by simp
next
  case (Cons e es)
  define dur where "dur = effectiveDuration (clock n) e"
  have rest0: "0 \<le> absSum clock (Suc n) es" by (rule absSum_nonneg)
  from Cons.prems have b: "\<bar>d Moving\<bar> + \<bar>d Traffic\<bar> + \<bar>d Dwelling\<bar> + \<bar>dur\<bar>
      + absSum clock (Suc n) es \<le> 2 ^ 53"
    by (simp add: absSum_Cons dur_def)
  have sub: "jsSub (effectiveEnd (clock n) e) (startTime e) = dur"
    using b rest0 by (simp add: jsSub_exact dur_def effectiveDuration_def)
  show ?case
  proof (cases "activity e")
    case None
    from b rest0 have "\<bar>d Moving\<bar> + \<bar>d Traffic\<bar> + \<bar>d Dwelling\<bar> + absSum clock (Suc n) es \<le> 2 ^ 53"
      by linarith
    from Cons.IH [OF this] None show ?thesis
      by (simp add: Let_def exactSum_Cons)
  next
    case (Some c)
    have add: "jsAdd (d c) dur = d c + dur"
    proof -
      have "\<bar>d c\<bar> \<le> \<bar>d Moving\<bar> + \<bar>d Traffic\<bar> + \<bar>d Dwelling\<bar>" by (cases c) simp_all
      with b rest0 have "\<bar>d c + dur\<bar> \<le> 2 ^ 53" by linarith
      then show ?thesis by (rule jsAdd_exact)
    qed
    define d' where "d' = d(c := d c + dur)"
    have "\<bar>d' Moving\<bar> + \<bar>d' Traffic\<bar> + \<bar>d' Dwelling\<bar>
        \<le> \<bar>d Moving\<bar> + \<bar>d Traffic\<bar> + \<bar>d Dwelling\<bar> + \<bar>dur\<bar>"
      by (cases c) (simp_all add: d'_def)
    with b have "\<bar>d' Moving\<bar> + \<bar>d' Traffic\<bar> + \<bar>d' Dwelling\<bar> + absSum clock (Suc n) es \<le> 2 ^ 53"
      by linarith
    note ih = Cons.IH [OF this]
    have "sumDurations clock n (e # es) d a = sumDurations clock (Suc n) es d' a"
      by (simp add: Let_def Some sub add d'_def)
    also have "\<dots> = d' a + exactSum clock (Suc n) es a" by (rule ih)
    also have "\<dots> = d a + exactSum clock n (e # es) a"
      by (simp add: d'_def exactSum_Cons Some dur_def)
    finally show ?thesis .
  qed
qed

lemma exactSum_abs:
  "\<bar>exactSum clock n es Moving\<bar> + \<bar>exactSum clock n es Traffic\<bar> + \<bar>exactSum clock n es Dwelling\<bar>
     \<le> absSum clock n es"
proof (induction es arbitrary: n)
  case Nil
  then show ?case by (simp add: absSum_def)
next
  case (Cons e es)
  show ?case
  proof (cases "activity e")
    case None
    with Cons [of "Suc n"] show ?thesis by (simp add: exactSum_Cons absSum_Cons)
  next
    case (Some c)
    with Cons [of "Suc n"] show ?thesis
      by (cases c) (simp_all add: exactSum_Cons absSum_Cons)
  qed
qed

lemma durations_exact:
  assumes "absSum clock 0 es \<le> 2 ^ 53"
  shows "sumDurations clock 0 es (\<lambda>a. 0) a = exactSum clock 0 es a"
  using sumDurations_exact [of "\<lambda>a. 0" clock 0 es a] assms by simp

lemma totalDuration_exact:
  assumes "absSum clock 0 es \<le> 2 ^ 53"
  shows "totalDuration clock es
     = exactSum clock 0 es Moving + exactSum clock 0 es Traffic + exactSum clock 0 es Dwelling"
proof -
  note a = exactSum_abs [of clock 0 es]
  have 1: "\<bar>exactSum clock 0 es Moving + exactSum clock 0 es Traffic\<bar> \<le> 2 ^ 53"
    using a assms by linarith
  have 2: "\<bar>exactSum clock 0 es Moving + exactSum clock 0 es Traffic + exactSum clock 0 es Dwelling\<bar>
      \<le> 2 ^ 53"
    using a assms by linarith
  show ?thesis
    unfolding totalDuration_def Let_def durations_exact [OF assms]
    by (simp add: jsAdd_exact [OF 1] jsAdd_exact [OF 2])
qed

text \<open>
  In a log of the three activities with no negative duration the magnitudes add up to the
  total.
\<close>

lemma absSum_total:
  assumes "list_all (\<lambda>e. validActivity (activity e)) es"
    and "list_all (\<lambda>(i, e). 0 \<le> effectiveDuration (clock i) e) (enumerate n es)"
  shows "absSum clock n es
     = exactSum clock n es Moving + exactSum clock n es Traffic + exactSum clock n es Dwelling"
  using assms
proof (induction es arbitrary: n)
  case Nil
  then show ?case by (simp add: absSum_def)
next
  case (Cons e es)
  from Cons.prems have "absSum clock (Suc n) es
     = exactSum clock (Suc n) es Moving + exactSum clock (Suc n) es Traffic
       + exactSum clock (Suc n) es Dwelling"
    by (intro Cons.IH) simp_all
  moreover from Cons.prems have "0 \<le> effectiveDuration (clock n) e" by simp
  moreover from Cons.prems have "validActivity (activity e)" by simp
  ultimately show ?case
    by (auto simp: absSum_Cons exactSum_Cons validActivity_def)
qed

lemma magnitudes_total:
  assumes "list_all (\<lambda>e. validActivity (activity e)) es"
    and "list_all (\<lambda>(i, e). 0 \<le> effectiveDuration (clock i) e) (enumerate 0 es)"
    and "absSum clock 0 es \<le> 2 ^ 53"
  shows "absSum clock 0 es = totalDuration clock es"
  by (simp add: totalDuration_exact [OF assms(3)] absSum_total [OF assms(1,2)])

lemma abs_scale: "0 \<le> k \<Longrightarrow> \<bar>k * a - k * b\<bar> = k * \<bar>a - b\<bar>" for k a b :: rat
  by (metis abs_mult abs_of_nonneg right_diff_distrib)

lemma abs_via: "\<bar>a - c\<bar> \<le> \<bar>a - b\<bar> + \<bar>b - c\<bar>" for a b c :: rat
  by linarith

lemma fl_abs_le: "\<bar>fl x\<bar> \<le> 2 * \<bar>x\<bar>"
proof -
  have "\<bar>fl x\<bar> \<le> \<bar>fl x - x\<bar> + \<bar>x\<bar>" by linarith
  also have "\<dots> \<le> \<bar>x\<bar> / 2 ^ 53 + \<bar>x\<bar>" using fl_error [of x] by linarith
  also have "\<dots> \<le> 2 * \<bar>x\<bar>" by simp
  finally show ?thesis .
qed

lemma share_error:
  assumes "\<bar>x\<bar> \<le> 10 ^ 11"
  shows "\<bar>fl (fl x * 100) - 100 * x\<bar> \<le> 1 / 300"
proof -
  have e1: "\<bar>fl x - x\<bar> \<le> \<bar>x\<bar> / 2 ^ 53" by (rule fl_error)
  have "\<bar>fl (fl x * 100) - fl x * 100\<bar> \<le> \<bar>fl x * 100\<bar> / 2 ^ 53" by (rule fl_error)
  also have "\<dots> = 100 * \<bar>fl x\<bar> / 2 ^ 53" by (simp add: abs_mult)
  also have "\<dots> \<le> 100 * (2 * \<bar>x\<bar>) / 2 ^ 53"
    using fl_abs_le [of x] by (intro divide_right_mono mult_left_mono) simp_all
  finally have e2: "\<bar>fl (fl x * 100) - fl x * 100\<bar> \<le> 200 * \<bar>x\<bar> / 2 ^ 53" by simp
  have "\<bar>fl (fl x * 100) - 100 * x\<bar>
      \<le> \<bar>fl (fl x * 100) - 100 * fl x\<bar> + \<bar>100 * fl x - 100 * x\<bar>"
    by (rule abs_via)
  also have "\<bar>100 * fl x - 100 * x\<bar> = 100 * \<bar>fl x - x\<bar>" by (rule abs_scale) simp
  finally have "\<bar>fl (fl x * 100) - 100 * x\<bar> \<le> \<bar>fl (fl x * 100) - fl x * 100\<bar> + 100 * \<bar>fl x - x\<bar>"
    by (simp add: mult.commute)
  also have "\<dots> \<le> 200 * \<bar>x\<bar> / 2 ^ 53 + 100 * (\<bar>x\<bar> / 2 ^ 53)"
    by (intro add_mono mult_left_mono e1 e2) simp
  also have "\<dots> = 300 * \<bar>x\<bar> / 2 ^ 53" by simp
  also have "\<dots> \<le> 300 * 10 ^ 11 / 2 ^ 53"
    using assms by (intro divide_right_mono mult_left_mono) simp_all
  also have "\<dots> \<le> 1 / 300" by simp
  finally show ?thesis .
qed

lemma toFixed1_finite:
  assumes "\<bar>q\<bar> < 10 ^ 21"
  shows "toFixed1 (Finite q) = Some (shareString (q < 0) (nat \<lfloor>\<bar>q\<bar> * 10 + 1 / 2\<rfloor>))"
  using assms by (simp add: toFixed1_def shareString_def)

lemma shareTenths_error:
  "\<bar>of_int (shareTenths (q < 0) (nat \<lfloor>\<bar>q\<bar> * 10 + 1 / 2\<rfloor>)) - 10 * q\<bar> \<le> (1 / 2 :: rat)"
proof -
  define y where "y = \<bar>q\<bar> * 10"
  define n where "n = \<lfloor>y + 1 / 2\<rfloor>"
  define v where "v = shareTenths (q < 0) (nat n)"
  have y0: "0 \<le> y" by (simp add: y_def)
  then have n0: "0 \<le> n" by (simp add: n_def)
  have f: "of_int n \<le> y + 1 / 2" "y + 1 / 2 < of_int n + 1"
    unfolding n_def by linarith+
  have "\<bar>of_int v - 10 * q\<bar> \<le> (1 / 2 :: rat)"
  proof (cases "q < 0")
    case True
    then have "y = - (10 * q)" by (simp add: y_def)
    moreover from True n0 have "(of_int v :: rat) = - of_int n" by (simp add: v_def shareTenths_def)
    ultimately show ?thesis using f by linarith
  next
    case False
    then have "y = 10 * q" by (simp add: y_def)
    moreover from False n0 have "(of_int v :: rat) = of_int n" by (simp add: v_def shareTenths_def)
    ultimately show ?thesis using f by linarith
  qed
  then show ?thesis by (simp add: v_def n_def y_def)
qed

lemma share_of:
  fixes D T :: int
  assumes "0 < T" "\<bar>D\<bar> \<le> 10 ^ 11 * T"
  shows "\<exists>s n. toFixed1 (jsMul100 (jsDiv D T)) = Some (shareString s n)
           \<and> \<bar>of_int (shareTenths s n) - 1000 * (of_int D / of_int T)\<bar> \<le> (8 / 15 :: rat)"
proof -
  define x :: rat where "x = of_int D / of_int T"
  define q where "q = fl (fl x * 100)"
  have T1: "(1::rat) \<le> of_int T" using assms(1) by simp
  have "\<bar>x\<bar> = of_int \<bar>D\<bar> / of_int T" using assms(1) by (simp add: x_def)
  also have "\<dots> \<le> 10 ^ 11"
  proof -
    have "(of_int \<bar>D\<bar> :: rat) \<le> of_int (10 ^ 11 * T)" using assms(2) by (simp only: of_int_le_iff)
    then have "(of_int \<bar>D\<bar> :: rat) \<le> 10 ^ 11 * of_int T" by simp
    with T1 show ?thesis by (simp add: pos_divide_le_eq)
  qed
  finally have xb: "\<bar>x\<bar> \<le> 10 ^ 11" .
  have err: "\<bar>q - 100 * x\<bar> \<le> 1 / 300" unfolding q_def by (rule share_error [OF xb])
  have "\<bar>q - 0\<bar> \<le> \<bar>q - 100 * x\<bar> + \<bar>100 * x - 100 * 0\<bar>" using abs_via [of q 0 "100 * x"] by simp
  also have "\<bar>100 * x - 100 * 0\<bar> = 100 * \<bar>x - 0\<bar>" by (rule abs_scale) simp
  finally have "\<bar>q\<bar> \<le> \<bar>q - 100 * x\<bar> + 100 * \<bar>x\<bar>" by simp
  moreover have "\<bar>x\<bar> \<le> 100000000000" using xb by simp
  ultimately have "\<bar>q\<bar> < 1000000000000000000000" using err by linarith
  then have "\<bar>q\<bar> < 10 ^ 21" by simp
  then have s: "toFixed1 (Finite q) = Some (shareString (q < 0) (nat \<lfloor>\<bar>q\<bar> * 10 + 1 / 2\<rfloor>))"
    by (rule toFixed1_finite)
  have js: "jsMul100 (jsDiv D T) = Finite q"
    using assms(1) by (simp add: jsDiv_def jsMul100_def q_def x_def)
  have "\<bar>of_int (shareTenths (q < 0) (nat \<lfloor>\<bar>q\<bar> * 10 + 1 / 2\<rfloor>)) - 10 * (100 * x)\<bar>
      \<le> \<bar>of_int (shareTenths (q < 0) (nat \<lfloor>\<bar>q\<bar> * 10 + 1 / 2\<rfloor>)) - 10 * q\<bar>
        + \<bar>10 * q - 10 * (100 * x)\<bar>"
    by (rule abs_via)
  also have "\<bar>10 * q - 10 * (100 * x)\<bar> = 10 * \<bar>q - 100 * x\<bar>" by (rule abs_scale) simp
  finally have "\<bar>of_int (shareTenths (q < 0) (nat \<lfloor>\<bar>q\<bar> * 10 + 1 / 2\<rfloor>)) - 1000 * x\<bar>
      \<le> \<bar>of_int (shareTenths (q < 0) (nat \<lfloor>\<bar>q\<bar> * 10 + 1 / 2\<rfloor>)) - 10 * q\<bar> + 10 * \<bar>q - 100 * x\<bar>"
    by simp
  also have "\<dots> \<le> 1 / 2 + 10 * (1 / 300)"
    by (intro add_mono mult_left_mono shareTenths_error err) simp
  also have "\<dots> = 8 / 15" by simp
  finally have b: "\<bar>of_int (shareTenths (q < 0) (nat \<lfloor>\<bar>q\<bar> * 10 + 1 / 2\<rfloor>)) - 1000 * x\<bar>
      \<le> 8 / 15" .
  from s js have "toFixed1 (jsMul100 (jsDiv D T))
      = Some (shareString (q < 0) (nat \<lfloor>\<bar>q\<bar> * 10 + 1 / 2\<rfloor>))" by simp
  with b show ?thesis unfolding x_def by blast
qed

lemma share_667: "toFixed1 (jsMul100 (jsDiv 60000 90000)) = Some ''66.7''"
  by (simp add: fl_eval str_eval)

lemma share_333: "toFixed1 (jsMul100 (jsDiv 30000 90000)) = Some ''33.3''"
  by (simp add: fl_eval str_eval)

lemma share_000: "toFixed1 (jsMul100 (jsDiv 0 90000)) = Some ''0.0''"
  by (simp add: fl_eval str_eval)

lemma scenario_shares:
  "calculateDurations (\<lambda>i. 90000)
     [\<lparr>activity = Some Moving, startTime = 0, endTime = Some 60000\<rparr>,
      \<lparr>activity = Some Traffic, startTime = 60000, endTime = Some 90000\<rparr>]
   = \<lparr>moving = Some ''66.7'', traffic = Some ''33.3'', dwelling = Some ''0.0''\<rparr>"
  by (simp add: calculateDurations_def Let_def effectiveEnd_def jsSub_exact jsAdd_exact
      share_667 share_333 share_000)

lemma scenario_total:
  "totalDuration (\<lambda>i. 90000)
     [\<lparr>activity = Some Moving, startTime = 0, endTime = Some 60000\<rparr>,
      \<lparr>activity = Some Traffic, startTime = 60000, endTime = Some 90000\<rparr>] = 90000"
  by (simp add: totalDuration_def Let_def effectiveEnd_def jsSub_exact jsAdd_exact)

subsection \<open>A reading of the clock earlier than the start\<close>

lemma formatDuration_negative: "formatDuration 1762131744000 1762131743999 = ''-1:-1.0-1''"
  using formatDuration_parts [of 1762131743999 1762131744000]
  by (simp add: jsRem_def numberToString_def padStart_def natString_one digitChar_def)

lemma utcTime_back: "utcTime 1762131743999 = ''1:02:23 AM''"
  by (simp add: utcTime_def natString_one twoDigits_def digitChar_def Let_def)

lemma row_negative:
  "csvRow utcTime 1762131743999 \<lparr>activity = Some Moving, startTime = 1762131744000, endTime = None\<rparr>
     = ''moving,1:02:24 AM,1:02:23 AM,-1:-1.0-1''"
  by (simp add: csvRow_def effectiveEnd_def formatTimeForCSV_def activityString_def
      formatDuration_negative utcTime_examples utcTime_back)

lemma parseDuration_negative: "parseDuration ''-1:-1.0-1'' = None"
  by (simp add: parseDuration_def parseNat_def digitValue_def)

lemma parseRow_negative: "parseRow ''moving,1:02:24 AM,1:02:23 AM,-1:-1.0-1'' = None"
  by (simp add: parseRow_def parseDuration_negative)

section \<open>Claims about the session log\<close>

text \<open>
  C1. After every call of every sequence of \<open>selectActivity\<close> calls, starting from the empty
  log, at most one entry of the log is open (has \<open>endTime = null\<close>). The handler does not
  keep this for two calls handled within one render: both read the \<open>currentActivity\<close> of
  that render. From the initial state, \<open>moving\<close> pressed at \<open>0\<close> and again at \<open>5\<close> before the
  next render leaves two open entries, where the second press should have closed the
  first entry.
\<close>

theorem two_calls_one_render:
  "schedule [ [(Moving, 0), (Moving, 5)] ] =
     \<lparr>currentActivity = Some Moving,
      timeEntries = [\<lparr>activity = Some Moving, startTime = 0, endTime = None\<rparr>,
                     \<lparr>activity = Some Moving, startTime = 5, endTime = None\<rparr>],
      startTime_st = Some 5\<rparr>
   \<and> length (openEntries (timeEntries (schedule [ [(Moving, 0), (Moving, 5)] ]))) = 2"
  by (simp add: sched_eval openEntries_def isOpen_def)

text \<open>
  When every call is committed before the next one is handled, at most one entry is open
  after every call. The state after the first \<open>n\<close> calls is \<open>session (take n calls)\<close>.
\<close>

theorem at_most_one_open:
  "length (openEntries (timeEntries (session (take n calls)))) \<le> 1"
  by (rule consistent_open_le1) (rule consistent_session)

text \<open>
  C2. On a state whose cached activity agrees with the log, one call of \<open>selectActivity\<close>
  with one sampled timestamp does what the three cases of the specification say: from Idle
  it appends a new open entry and becomes active; from \<open>Active a\<close> on \<open>a\<close> it closes the
  open entry at \<open>now\<close> and becomes idle; from \<open>Active a\<close> on another activity it closes the
  open entry at \<open>now\<close> and appends a new open entry starting at the same \<open>now\<close>.
\<close>

theorem select_three_cases:
  "consistent s \<Longrightarrow> machine (selectActivity a now s) = select_spec a now (machine s)"
  by (cases "currentActivity s")
    (auto simp: machine_def select_spec_def selectActivity_def handleActivityClick_def Let_def
      newEntry_def close_consistent)

theorem select_three_cases_witness:
  "consistent initial
   \<and> machine (selectActivity Moving 0 initial)
       = (Some Moving, [\<lparr>activity = Some Moving, startTime = 0, endTime = None\<rparr>])
   \<and> consistent (session [(Moving, 0)])
   \<and> machine (selectActivity Moving 60000 (session [(Moving, 0)]))
       = (None, [\<lparr>activity = Some Moving, startTime = 0, endTime = Some 60000\<rparr>])
   \<and> machine (selectActivity Traffic 60000 (session [(Moving, 0)]))
       = (Some Traffic, [\<lparr>activity = Some Moving, startTime = 0, endTime = Some 60000\<rparr>,
                         \<lparr>activity = Some Traffic, startTime = 60000, endTime = None\<rparr>])"
proof -
  have c0: "consistent initial" by (rule consistent_initial)
  have c1: "consistent (session [(Moving, 0)])" by (rule consistent_session)
  have m0: "machine initial = (None, [])" by (simp add: machine_def initial_def)
  have m1: "machine (session [(Moving, 0)])
      = (Some Moving, [\<lparr>activity = Some Moving, startTime = 0, endTime = None\<rparr>])"
    by (simp add: machine_def session_run initial_def selectActivity_def handleActivityClick_def)
  show ?thesis
    using c0 c1 select_three_cases [OF c0, of Moving 0]
      select_three_cases [OF c1, of Moving 60000] select_three_cases [OF c1, of Traffic 60000]
    by (simp add: m0 m1 select_spec_def newEntry_def closeOpenEntry_def)
qed

text \<open>
  C4. After every sequence of \<open>selectActivity\<close> calls, however the calls fall into renders,
  the cached \<open>currentActivity\<close> agrees with the log: it is the activity \<open>a\<close> exactly when the
  log is not empty and its last entry is open with activity \<open>a\<close>, and it is \<open>null\<close> exactly
  when no entry of the log is open.
\<close>

theorem cached_activity_consistent:
  "(currentActivity (schedule batches) = Some a \<longleftrightarrow>
      timeEntries (schedule batches) \<noteq> [] \<and> isOpen (last (timeEntries (schedule batches)))
      \<and> activity (last (timeEntries (schedule batches))) = Some a)
   \<and> (currentActivity (schedule batches) = None
        \<longleftrightarrow> openEntries (timeEntries (schedule batches)) = [])"
  by (rule agrees_iff) (rule agrees_schedule)

text \<open>
  C5. When the timestamps sampled by a sequence of \<open>selectActivity\<close> calls do not decrease,
  the entries of the log are in ascending order of \<open>startTime\<close>, every entry that follows a
  closed entry starts no earlier than that entry ends, and an entry created by selecting
  another activity while one was active starts exactly when the entry before it ends. The
  handler does not keep this for two calls handled within one render: \<open>moving\<close> at \<open>0\<close> and
  \<open>traffic\<close> at \<open>5\<close> in one render, then \<open>dwelling\<close> at \<open>9\<close>, give a first entry that ends at
  \<open>9\<close> and a second entry that starts at \<open>5\<close>.
\<close>

theorem overlap_after_one_render:
  "sorted (map snd (concat [ [(Moving, 0::int), (Traffic, 5)], [(Dwelling, 9)] ]))
   \<and> timeEntries (schedule [ [(Moving, 0), (Traffic, 5)], [(Dwelling, 9)] ]) =
       [\<lparr>activity = Some Moving, startTime = 0, endTime = Some 9\<rparr>,
        \<lparr>activity = Some Traffic, startTime = 5, endTime = Some 9\<rparr>,
        \<lparr>activity = Some Dwelling, startTime = 9, endTime = None\<rparr>]
   \<and> endTime (timeEntries (schedule [ [(Moving, 0), (Traffic, 5)], [(Dwelling, 9)] ]) ! 0) = Some 9
   \<and> startTime (timeEntries (schedule [ [(Moving, 0), (Traffic, 5)], [(Dwelling, 9)] ]) ! 1) = 5"
  by (simp add: sched_eval)

text \<open>
  When every call is committed before the next one is handled and the timestamps do not
  decrease, the three properties hold.
\<close>

theorem chronological_handoff:
  "sorted (map snd calls) \<Longrightarrow>
     sorted (map startTime (timeEntries (session calls)))
     \<and> (\<forall>i t. Suc i < length (timeEntries (session calls))
              \<and> endTime (timeEntries (session calls) ! i) = Some t
            \<longrightarrow> t \<le> startTime (timeEntries (session calls) ! Suc i))
     \<and> (\<forall>pre b t post a.
           calls = pre @ (b, t) # post \<and> currentActivity (session pre) = Some a \<and> a \<noteq> b
            \<longrightarrow> endTime (timeEntries (session calls) ! (length (timeEntries (session pre)) - 1)) = Some t
              \<and> startTime (timeEntries (session calls) ! length (timeEntries (session pre))) = t)"
proof (intro conjI allI impI)
  assume s: "sorted (map snd calls)"
  show "sorted (map startTime (timeEntries (session calls)))"
    by (rule sorted_startTime) (rule chron_session [OF s])
next
  fix i t
  assume s: "sorted (map snd calls)"
    and h: "Suc i < length (timeEntries (session calls))
            \<and> endTime (timeEntries (session calls) ! i) = Some t"
  from successively_nth [OF chron_session [OF s], of i] h
  show "t \<le> startTime (timeEntries (session calls) ! Suc i)"
    by (simp add: follows_def)
next
  fix pre b t post a
  assume "calls = pre @ (b, t) # post \<and> currentActivity (session pre) = Some a \<and> a \<noteq> b"
  then show "endTime (timeEntries (session calls) ! (length (timeEntries (session pre)) - 1)) = Some t"
    using handoff_session by blast
next
  fix pre b t post a
  assume "calls = pre @ (b, t) # post \<and> currentActivity (session pre) = Some a \<and> a \<noteq> b"
  then show "startTime (timeEntries (session calls) ! length (timeEntries (session pre))) = t"
    using handoff_session by blast
qed

theorem chronological_handoff_witness:
  "sorted (map snd [(Moving, 0::int), (Traffic, 60000), (Traffic, 90000)])
   \<and> sorted (map startTime (timeEntries (session [(Moving, 0), (Traffic, 60000), (Traffic, 90000)])))
   \<and> currentActivity (session [(Moving, 0)]) = Some Moving
   \<and> endTime (timeEntries (session [(Moving, 0), (Traffic, 60000), (Traffic, 90000)]) ! 0) = Some 60000
   \<and> startTime (timeEntries (session [(Moving, 0), (Traffic, 60000), (Traffic, 90000)]) ! 1) = 60000"
proof -
  let ?calls = "[(Moving, 0::int), (Traffic, 60000), (Traffic, 90000)]"
  have h: "sorted (map snd ?calls)" by simp
  have p: "currentActivity (session [(Moving, 0)]) = Some Moving"
      "length (timeEntries (session [(Moving, 0)])) = 1"
    by (simp_all add: session_run initial_def selectActivity_def handleActivityClick_def)
  have d: "?calls = [(Moving, 0)] @ (Traffic, 60000) # [(Traffic, 90000)]" by simp
  from chronological_handoff [OF h] have
    "sorted (map startTime (timeEntries (session ?calls)))"
    and "\<forall>pre b t post a.
           ?calls = pre @ (b, t) # post \<and> currentActivity (session pre) = Some a \<and> a \<noteq> b
            \<longrightarrow> endTime (timeEntries (session ?calls) ! (length (timeEntries (session pre)) - 1)) = Some t
              \<and> startTime (timeEntries (session ?calls) ! length (timeEntries (session pre))) = t"
    by blast+
  with h p d show ?thesis
    by (metis ActivityName.distinct(1) One_nat_def diff_self_eq_0)
qed

text \<open>
  C9 (as amended). Every entry of a log reached through the three buttons, that is through
  \<open>selectActivity\<close> with \<open>Moving\<close>, \<open>Traffic\<close> or \<open>Dwelling\<close>, however the calls fall into
  renders, carries one of these three activities. \<open>handleActivityClick\<close> itself has no check
  that rejects \<open>null\<close>: called with \<open>null\<close> while no activity is active it leaves the state
  as it is.
\<close>

theorem buttons_log_valid_null_idle:
  "list_all (\<lambda>e. validActivity (activity e)) (timeEntries (schedule batches))
   \<and> (currentActivity s = None \<longrightarrow> handleActivityClick None now s = s)"
  by (simp add: schedule_def valid_renders initial_def handleActivityClick_def)

theorem buttons_log_valid_null_idle_witness:
  "list_all (\<lambda>e. validActivity (activity e))
     (timeEntries (schedule [ [(Moving, 0)], [(Traffic, 5), (Dwelling, 6)] ]))
   \<and> currentActivity (session [(Moving, 0), (Moving, 5)]) = None
   \<and> handleActivityClick None 7 (session [(Moving, 0), (Moving, 5)]) = session [(Moving, 0), (Moving, 5)]"
proof -
  have "currentActivity (session [(Moving, 0), (Moving, 5)]) = None"
    by (simp add: session_run initial_def selectActivity_def handleActivityClick_def)
  with buttons_log_valid_null_idle [of "[ [(Moving, 0)], [(Traffic, 5), (Dwelling, 6)] ]"
      "session [(Moving, 0), (Moving, 5)]" 7]
  show ?thesis by blast
qed

text \<open>
  The claim as stated fails: \<open>handleActivityClick(null)\<close> while \<open>Moving\<close> is active closes
  the open entry and appends an open entry whose activity is \<open>null\<close>.
\<close>

theorem null_enters_log_counterexample:
  "timeEntries (handleActivityClick None 1 (session [(Moving, 0)])) =
     [\<lparr>activity = Some Moving, startTime = 0, endTime = Some 1\<rparr>,
      \<lparr>activity = None, startTime = 1, endTime = None\<rparr>]
   \<and> \<not> list_all (\<lambda>e. validActivity (activity e))
         (timeEntries (handleActivityClick None 1 (session [(Moving, 0)])))"
  by (simp add: session_run initial_def selectActivity_def handleActivityClick_def closeEntry_def
      validActivity_def)

section \<open>Claims about the readers of the log\<close>

text \<open>
  C3 (as amended). For the empty log \<open>calculateDurations\<close> does not throw: the total is
  \<open>0\<close>, each share is \<open>0 / 0 * 100\<close>, which is \<open>NaN\<close>, and \<open>toFixed(1)\<close> prints it as the
  string \<open>NaN\<close>. The component does not show the shares of an empty log.
\<close>

theorem empty_log_shares_NaN:
  "calculateDurations clock []
     = \<lparr>moving = Some ''NaN'', traffic = Some ''NaN'', dwelling = Some ''NaN''\<rparr>
   \<and> timeSplit clock [] = None"
  by (simp add: calculateDurations_def timeSplit_def jsAdd_def doubleOf_def fl_def jsDiv_def
      jsMul100_def toFixed1_def)

text \<open>
  The claim as stated fails: the shares of the empty log are not \<open>0.0\<close>.
\<close>

theorem empty_log_shares_counterexample:
  "moving (calculateDurations (\<lambda>i. 0) []) = Some ''NaN''
   \<and> calculateDurations (\<lambda>i. 0) []
       \<noteq> \<lparr>moving = Some ''0.0'', traffic = Some ''0.0'', dwelling = Some ''0.0''\<rparr>"
  by (simp add: calculateDurations_def jsAdd_def doubleOf_def fl_def jsDiv_def
      jsMul100_def toFixed1_def)

text \<open>
  C6. The three shares are texts of one decimal place whose sum is \<open>100.0\<close> up to one unit
  of the last place: with each share read as a signed number of tenths, the three numbers
  add up to \<open>999\<close>, \<open>1000\<close> or \<open>1001\<close>. This holds for every log whose total duration is
  positive, as long as the magnitudes of the effective durations of its entries add up to
  at most \<open>2^53\<close> milliseconds, so that the sums of the aggregator are exact, and to at most
  \<open>10^11\<close> times the total. That is every log of the three activities in which no duration
  is negative, of any length that timestamps of \<open>Date.now()\<close> can span, and every log with
  durations of either sign whose magnitudes add up to at most \<open>10^11\<close> milliseconds (more
  than three years).
\<close>

theorem shares_sum_to_100:
  assumes "sum_list (map (\<lambda>(i, e). \<bar>effectiveDuration (clock i) e\<bar>) (enumerate 0 es)) \<le> 2 ^ 53"
    and "0 < totalDuration clock es"
    and "sum_list (map (\<lambda>(i, e). \<bar>effectiveDuration (clock i) e\<bar>) (enumerate 0 es))
           \<le> 10 ^ 11 * totalDuration clock es"
  shows "\<exists>sm nm st nt sd nd.
           calculateDurations clock es
             = \<lparr>moving = Some (shareString sm nm), traffic = Some (shareString st nt),
                dwelling = Some (shareString sd nd)\<rparr>
           \<and> \<bar>shareTenths sm nm + shareTenths st nt + shareTenths sd nd - 1000\<bar> \<le> 1"
proof -
  define DM DT DD where "DM = exactSum clock 0 es Moving" and "DT = exactSum clock 0 es Traffic"
    and "DD = exactSum clock 0 es Dwelling"
  define T where "T = DM + DT + DD"
  have B53: "absSum clock 0 es \<le> 2 ^ 53" using assms(1) by (simp add: absSum_def)
  have tot: "totalDuration clock es = T"
    by (simp add: totalDuration_exact [OF B53] T_def DM_def DT_def DD_def)
  then have Tpos: "0 < T" using assms(2) by simp
  have B: "absSum clock 0 es \<le> 10 ^ 11 * T" using assms(3) tot by (simp add: absSum_def)
  have ab: "\<bar>DM\<bar> + \<bar>DT\<bar> + \<bar>DD\<bar> \<le> 10 ^ 11 * T"
    using exactSum_abs [of clock 0 es] B unfolding DM_def DT_def DD_def by linarith
  then have bM: "\<bar>DM\<bar> \<le> 10 ^ 11 * T" and bT: "\<bar>DT\<bar> \<le> 10 ^ 11 * T"
    and bD: "\<bar>DD\<bar> \<le> 10 ^ 11 * T"
    by linarith+
  have calc: "calculateDurations clock es
      = \<lparr>moving = toFixed1 (jsMul100 (jsDiv DM T)), traffic = toFixed1 (jsMul100 (jsDiv DT T)),
         dwelling = toFixed1 (jsMul100 (jsDiv DD T))\<rparr>"
    using tot unfolding calculateDurations_def totalDuration_def Let_def durations_exact [OF B53]
    by (simp add: DM_def DT_def DD_def)
  from share_of [OF Tpos bM] obtain sm nm where
    m: "toFixed1 (jsMul100 (jsDiv DM T)) = Some (shareString sm nm)"
    and em: "\<bar>of_int (shareTenths sm nm) - 1000 * (of_int DM / of_int T)\<bar> \<le> (8 / 15 :: rat)"
    by blast
  from share_of [OF Tpos bT] obtain st nt where
    t: "toFixed1 (jsMul100 (jsDiv DT T)) = Some (shareString st nt)"
    and et: "\<bar>of_int (shareTenths st nt) - 1000 * (of_int DT / of_int T)\<bar> \<le> (8 / 15 :: rat)"
    by blast
  from share_of [OF Tpos bD] obtain sd nd where
    d: "toFixed1 (jsMul100 (jsDiv DD T)) = Some (shareString sd nd)"
    and ed: "\<bar>of_int (shareTenths sd nd) - 1000 * (of_int DD / of_int T)\<bar> \<le> (8 / 15 :: rat)"
    by blast
  have one: "1000 * (of_int DM / of_int T) + 1000 * (of_int DT / of_int T)
      + 1000 * (of_int DD / of_int T) = (1000 :: rat)"
  proof -
    have ne: "(of_int T :: rat) \<noteq> 0" using Tpos by simp
    have eq: "(of_int DM :: rat) + of_int DT + of_int DD = of_int T" by (simp add: T_def)
    have "1000 * (of_int DM / of_int T) + 1000 * (of_int DT / of_int T)
        + 1000 * (of_int DD / of_int T)
        = 1000 * ((of_int DM + of_int DT + of_int DD) / (of_int T :: rat))"
      by (simp add: add_divide_distrib distrib_left)
    also have "\<dots> = 1000 * (of_int T / (of_int T :: rat))" by (simp only: eq)
    also have "\<dots> = 1000" using ne by simp
    finally show ?thesis .
  qed
  define v where "v = shareTenths sm nm + shareTenths st nt + shareTenths sd nd"
  have "(of_int v :: rat) = of_int (shareTenths sm nm) + of_int (shareTenths st nt)
      + of_int (shareTenths sd nd)" by (simp add: v_def)
  with em et ed one have "\<bar>(of_int v :: rat) - 1000\<bar> \<le> 8 / 15 + 8 / 15 + 8 / 15" by linarith
  then have "\<bar>(of_int (v - 1000) :: rat)\<bar> < 2" by simp
  then have "\<bar>v - 1000\<bar> < 2" by (metis of_int_abs of_int_less_iff of_int_numeral)
  then have "\<bar>v - 1000\<bar> \<le> 1" by simp
  moreover have "calculateDurations clock es
      = \<lparr>moving = Some (shareString sm nm), traffic = Some (shareString st nt),
         dwelling = Some (shareString sd nd)\<rparr>"
    by (simp add: calc m t d)
  ultimately show ?thesis unfolding v_def by blast
qed

theorem shares_sum_to_100_witness:
  "0 < totalDuration (\<lambda>i. 90000)
         [\<lparr>activity = Some Moving, startTime = 0, endTime = Some 60000\<rparr>,
          \<lparr>activity = Some Traffic, startTime = 60000, endTime = Some 90000\<rparr>]
   \<and> calculateDurations (\<lambda>i. 90000)
         [\<lparr>activity = Some Moving, startTime = 0, endTime = Some 60000\<rparr>,
          \<lparr>activity = Some Traffic, startTime = 60000, endTime = Some 90000\<rparr>]
       = \<lparr>moving = Some ''66.7'', traffic = Some ''33.3'', dwelling = Some ''0.0''\<rparr>
   \<and> (\<exists>sm nm st nt sd nd.
         calculateDurations (\<lambda>i. 90000)
           [\<lparr>activity = Some Moving, startTime = 0, endTime = Some 60000\<rparr>,
            \<lparr>activity = Some Traffic, startTime = 60000, endTime = Some 90000\<rparr>]
           = \<lparr>moving = Some (shareString sm nm), traffic = Some (shareString st nt),
              dwelling = Some (shareString sd nd)\<rparr>
         \<and> \<bar>shareTenths sm nm + shareTenths st nt + shareTenths sd nd - 1000\<bar> \<le> 1)"
proof -
  let ?es = "[\<lparr>activity = Some Moving, startTime = 0, endTime = Some 60000\<rparr>,
              \<lparr>activity = Some Traffic, startTime = 60000, endTime = Some 90000\<rparr>]"
  have h1: "sum_list (map (\<lambda>(i, e). \<bar>effectiveDuration ((\<lambda>i. 90000) i) e\<bar>) (enumerate 0 ?es))
      \<le> 2 ^ 53"
    by (simp add: effectiveDuration_def effectiveEnd_def)
  have h2: "0 < totalDuration (\<lambda>i. 90000) ?es" by (simp add: scenario_total)
  have h3: "sum_list (map (\<lambda>(i, e). \<bar>effectiveDuration ((\<lambda>i. 90000) i) e\<bar>) (enumerate 0 ?es))
      \<le> 10 ^ 11 * totalDuration (\<lambda>i. 90000) ?es"
    by (simp add: scenario_total effectiveDuration_def effectiveEnd_def)
  from shares_sum_to_100 [OF h1 h2 h3] h2 scenario_shares show ?thesis by blast
qed



text \<open>
  C8 (as amended). When the formatted times contain neither a comma nor a newline and every
  entry of the log has an effective duration at its reading of the clock (the stored end
  time, or the reading when the end time is \<open>null\<close> or \<open>0\<close>, minus the start time) that is
  not negative and less than \<open>2^53\<close>, parsing the exported text gives back, row by row, the
  activity label and that duration to the millisecond.
\<close>

theorem round_trip:
  assumes "\<forall>t. plainTime tls t"
    and "list_all (\<lambda>(i, e). 0 \<le> effectiveDuration (clock i) e \<and> effectiveDuration (clock i) e < 2 ^ 53)
           (enumerate 0 es)"
  shows "parseCSV (exportToCSV tls clock es)
     = Some (map (\<lambda>(i, e). (activityString (activity e), effectiveDuration (clock i) e))
              (enumerate 0 es))"
proof -
  let ?rows = "map (\<lambda>(i, e). csvRow tls (clock i) e) (enumerate 0 es)"
  from rows_parse [OF assms] have p: "those (map parseRow ?rows)
       = Some (map (\<lambda>(i, e). (activityString (activity e), effectiveDuration (clock i) e))
                  (enumerate 0 es))"
    and nl: "list_all (\<lambda>x. CHR 0x0A \<notin> set x) ?rows" by simp_all
  have "splitOn (CHR 0x0A) (joinWith [CHR 0x0A] (headerRow # ?rows)) = headerRow # ?rows"
    using nl by (intro splitOn_join) (simp_all add: headerRow_no_newline)
  with p show ?thesis
    by (simp add: parseCSV_def exportToCSV_def headerRow_eq)
qed

theorem round_trip_witness:
  "effectiveDuration 1762131931045
      \<lparr>activity = Some Moving, startTime = 1762131744000, endTime = None\<rparr> = 187045
   \<and> parseCSV (exportToCSV utcTime (\<lambda>i. 1762131931045)
        [\<lparr>activity = Some Moving, startTime = 1762131744000, endTime = None\<rparr>])
      = Some [(''moving'', 187045)]"
proof -
  let ?e = "\<lparr>activity = Some Moving, startTime = 1762131744000, endTime = None\<rparr>"
  have h1: "\<forall>t. plainTime utcTime t" by (simp add: utcTime_plain)
  have h2: "list_all (\<lambda>(i, e). 0 \<le> effectiveDuration ((\<lambda>i. 1762131931045) i) e
              \<and> effectiveDuration ((\<lambda>i. 1762131931045) i) e < 2 ^ 53) (enumerate 0 [?e])"
    by (simp add: effectiveDuration_def effectiveEnd_def)
  from round_trip [OF h1 h2] show ?thesis
    by (simp add: effectiveDuration_def effectiveEnd_def activityString_def)
qed

text \<open>
  The claim as stated fails when the clock is read one millisecond earlier than the open
  entry started, as after a correction of the system clock: the duration \<open>-1\<close> is exported
  as \<open>-1:-1.0-1\<close>, which is not read back as \<open>-1\<close>.
\<close>

theorem round_trip_counterexample:
  "effectiveDuration 1762131743999
      \<lparr>activity = Some Moving, startTime = 1762131744000, endTime = None\<rparr> = - 1
   \<and> exportToCSV utcTime (\<lambda>i. 1762131743999)
        [\<lparr>activity = Some Moving, startTime = 1762131744000, endTime = None\<rparr>]
       = ''activity_type,start_time,end_time,duration'' @ [CHR 0x0A]
         @ ''moving,1:02:24 AM,1:02:23 AM,-1:-1.0-1''
   \<and> parseCSV (exportToCSV utcTime (\<lambda>i. 1762131743999)
        [\<lparr>activity = Some Moving, startTime = 1762131744000, endTime = None\<rparr>])
       \<noteq> Some [(''moving'', - 1)]"
proof -
  have e: "exportToCSV utcTime (\<lambda>i. 1762131743999)
        [\<lparr>activity = Some Moving, startTime = 1762131744000, endTime = None\<rparr>]
       = headerRow @ [CHR 0x0A] @ ''moving,1:02:24 AM,1:02:23 AM,-1:-1.0-1''"
    by (simp add: exportToCSV_def row_negative headerRow_eq)
  have "splitOn (CHR 0x0A) (headerRow @ CHR 0x0A # ''moving,1:02:24 AM,1:02:23 AM,-1:-1.0-1'')
      = [headerRow, ''moving,1:02:24 AM,1:02:23 AM,-1:-1.0-1'']"
    by (simp add: splitOn_append splitOn_none headerRow_no_newline)
  then have "parseCSV (headerRow @ [CHR 0x0A] @ ''moving,1:02:24 AM,1:02:23 AM,-1:-1.0-1'') = None"
    by (simp add: parseCSV_def parseRow_negative)
  with e show ?thesis
    by (simp add: effectiveDuration_def effectiveEnd_def headerRow_def)
qed

text \<open>
  C10. An entry whose \<open>endTime\<close> is exactly \<open>0\<close> is read by the serializer and by the
  aggregator as if it were open: the end they use for an entry is the reading of
  \<open>Date.now()\<close> when the stored end time is \<open>null\<close> or \<open>0\<close>, and the stored end time
  otherwise. The exported rows and the accumulated durations behind the shares are the
  ones computed with that end, and replacing every end time \<open>0\<close> of a log by \<open>null\<close>
  changes neither the exported text nor the shares.
\<close>

theorem zero_end_time_read_as_open:
  "exportToCSV tls clock es =
     joinWith [CHR 0x0A]
       (''activity_type,start_time,end_time,duration''
        # map (\<lambda>(i, e).
                 let end = (if endTime e = None \<or> endTime e = Some 0 then clock i
                            else the (endTime e))
                 in activityString (activity e) @ '','' @ tls (startTime e) @ '','' @ tls end
                    @ '','' @ formatDuration (startTime e) end)
            (enumerate 0 es))
   \<and> calculateDurations clock es =
       (let durations =
              (\<lambda>a. foldl (\<lambda>acc (i, e).
                             if activity e = Some a
                             then jsAdd acc
                                    (jsSub (if endTime e = None \<or> endTime e = Some 0 then clock i
                                            else the (endTime e)) (startTime e))
                             else acc)
                      0 (enumerate 0 es));
            total = jsAdd (jsAdd (durations Moving) (durations Traffic)) (durations Dwelling)
        in \<lparr>moving = toFixed1 (jsMul100 (jsDiv (durations Moving) total)),
            traffic = toFixed1 (jsMul100 (jsDiv (durations Traffic) total)),
            dwelling = toFixed1 (jsMul100 (jsDiv (durations Dwelling) total))\<rparr>)
   \<and> exportToCSV tls clock (map zeroAsOpen es) = exportToCSV tls clock es
   \<and> calculateDurations clock (map zeroAsOpen es) = calculateDurations clock es"
proof (intro conjI)
  show "exportToCSV tls clock es =
     joinWith [CHR 0x0A]
       (''activity_type,start_time,end_time,duration''
        # map (\<lambda>(i, e).
                 let end = (if endTime e = None \<or> endTime e = Some 0 then clock i
                            else the (endTime e))
                 in activityString (activity e) @ '','' @ tls (startTime e) @ '','' @ tls end
                    @ '','' @ formatDuration (startTime e) end)
            (enumerate 0 es))"
    by (simp add: exportToCSV_def headers_def csvRow_def formatTimeForCSV_def effectiveEnd_falsy
        Let_def)
  show "calculateDurations clock es =
       (let durations =
              (\<lambda>a. foldl (\<lambda>acc (i, e).
                             if activity e = Some a
                             then jsAdd acc
                                    (jsSub (if endTime e = None \<or> endTime e = Some 0 then clock i
                                            else the (endTime e)) (startTime e))
                             else acc)
                      0 (enumerate 0 es));
            total = jsAdd (jsAdd (durations Moving) (durations Traffic)) (durations Dwelling)
        in \<lparr>moving = toFixed1 (jsMul100 (jsDiv (durations Moving) total)),
            traffic = toFixed1 (jsMul100 (jsDiv (durations Traffic) total)),
            dwelling = toFixed1 (jsMul100 (jsDiv (durations Dwelling) total))\<rparr>)"
    unfolding calculateDurations_def sumDurations_foldl ..
  show "exportToCSV tls clock (map zeroAsOpen es) = exportToCSV tls clock es"
    by (simp add: exportToCSV_def rows_zeroAsOpen)
  show "calculateDurations clock (map zeroAsOpen es) = calculateDurations clock es"
    by (simp add: calculateDurations_def sumDurations_zeroAsOpen)
qed

theorem zero_end_time_read_as_open_witness:
  "calculateDurations (\<lambda>i. 15000)
     [\<lparr>activity = Some Moving, startTime = - 5000, endTime = Some 0\<rparr>,
      \<lparr>activity = Some Traffic, startTime = 0, endTime = Some 5000\<rparr>]
     = \<lparr>moving = Some ''80.0'', traffic = Some ''20.0'', dwelling = Some ''0.0''\<rparr>
   \<and> exportToCSV utcTime (\<lambda>i. 15000)
       [\<lparr>activity = Some Moving, startTime = - 5000, endTime = Some 0\<rparr>,
        \<lparr>activity = Some Traffic, startTime = 0, endTime = Some 5000\<rparr>]
     = ''activity_type,start_time,end_time,duration'' @ [CHR 0x0A]
       @ ''moving,11:59:55 PM,12:00:15 AM,0:20.000'' @ [CHR 0x0A]
       @ ''traffic,12:00:00 AM,12:00:05 AM,0:05.000''"
proof -
  let ?es = "[\<lparr>activity = Some Moving, startTime = - 5000, endTime = Some 0\<rparr>,
              \<lparr>activity = Some Traffic, startTime = 0, endTime = Some 5000\<rparr>]"
  note t = zero_end_time_read_as_open [of utcTime "\<lambda>i. 15000" ?es]
  have f: "formatDuration (- 5000) 15000 = ''0:20.000''" "formatDuration 0 5000 = ''0:05.000''"
    by (simp_all add: formatDuration_nonneg durationText_def natString_one twoDigits_def
        threeDigits_def digitChar_def)
  have u: "utcTime 0 = ''12:00:00 AM''" "utcTime 5000 = ''12:00:05 AM''"
    by (simp_all add: utcTime_def natString_one natString_more twoDigits_def digitChar_def
        Let_def)
  from t have "calculateDurations (\<lambda>i. 15000) ?es
     = \<lparr>moving = Some ''80.0'', traffic = Some ''20.0'', dwelling = Some ''0.0''\<rparr>"
    by (simp add: enumerate_simps Let_def jsSub_exact jsAdd_exact share_80 share_20 share_0)
  moreover from t have "exportToCSV utcTime (\<lambda>i. 15000) ?es
     = ''activity_type,start_time,end_time,duration'' @ [CHR 0x0A]
       @ ''moving,11:59:55 PM,12:00:15 AM,0:20.000'' @ [CHR 0x0A]
       @ ''traffic,12:00:00 AM,12:00:05 AM,0:05.000''"
    by (simp add: enumerate_simps Let_def activityString_def utcTime_examples2 u f)
  ultimately show ?thesis by blast
qed

end
